theory Spec2Isabelle
  imports Complex_Main "HOL-Library.Word" "HOL-Library.Multiset"
begin

section \<open>Isotropic remeshing: the entry points of remesh.h\<close>

text \<open>
  The header \<^verbatim>\<open>CGAL/Polygon_mesh_processing/remesh.h\<close> holds the two public entry points
  \<^verbatim>\<open>isotropic_remeshing\<close> and \<^verbatim>\<open>split_long_edges\<close>. Both read named parameters, build an
  \<^verbatim>\<open>internal::Incremental_remesher\<close> and call its member functions. The remesher itself
  lives in \<^verbatim>\<open>internal/Isotropic_remeshing/remesh_impl.h\<close>, which is not among the sources,
  so every call into it is a parameter of the model (the record \<open>collaborators\<close> below).

  Conventions of the embedding:
  \<^item> \<^verbatim>\<open>double\<close> is idealised as \<open>real\<close> (no rounding, no NaN);
  \<^item> \<^verbatim>\<open>unsigned int\<close> is \<open>32 word\<close>;
  \<^item> the mesh together with the contents of all its property maps is one state of type
    \<open>'m\<close>, passed through every call and returned updated; the geometric traits, the
    vertex point map and the face index map are handles that the entry point only
    forwards, and are part of that state;
  \<^item> a failed \<^verbatim>\<open>CGAL_precondition_msg\<close> is the error value \<open>Precondition_violation\<close>,
    carrying the message and the state reached when it was raised.
\<close>

type_synonym uint = "32 word"

subsection \<open>Named parameters\<close>

record ('ecm, 'vcm, 'fpm, 'pf) named_parameters =
  number_of_iterations :: "uint option"
  edge_is_constrained :: "'ecm option"
  vertex_is_constrained :: "'vcm option"
  protect_constraints :: "bool option"
  collapse_constraints :: "bool option"
  face_patch :: "'fpm option"
  number_of_relaxation_steps :: "uint option"
  relax_constraints :: "bool option"
  do_project :: "bool option"
  projection_functor :: "'pf option"

text \<open>
  Modelled from the spec: \<^verbatim>\<open>parameters::all_default()\<close>, like \<^verbatim>\<open>choose_parameter\<close>,
  \<^verbatim>\<open>get_parameter\<close> and \<^verbatim>\<open>is_default_parameter\<close>, is declared in
  \<^verbatim>\<open>internal/named_function_params.h\<close>, which is not among the sources. A named parameter
  that the caller did not give is \<open>None\<close>; with \<open>all_default\<close> none is given.
\<close>

definition all_default :: "('ecm, 'vcm, 'fpm, 'pf) named_parameters" where
  "all_default =
     \<lparr> number_of_iterations = None, edge_is_constrained = None,
       vertex_is_constrained = None, protect_constraints = None,
       collapse_constraints = None, face_patch = None,
       number_of_relaxation_steps = None, relax_constraints = None,
       do_project = None, projection_functor = None \<rparr>"

text \<open>
  Modelled from the spec: \<^verbatim>\<open>choose_parameter(get_parameter(np, p), d)\<close> is the value the caller
  gave for \<open>p\<close>, or the default \<open>d\<close> (the table of options in the spec, 6).
\<close>

definition choose_parameter :: "'a option \<Rightarrow> 'a \<Rightarrow> 'a" where
  "choose_parameter p d = (case p of None \<Rightarrow> d | Some v \<Rightarrow> v)"

text \<open>
  Modelled from the spec: \<^verbatim>\<open>is_default_parameter\<close> says whether the caller left the parameter
  out (spec 4.6: a caller may or may not supply the functor).
\<close>

definition is_default_parameter :: "'a option \<Rightarrow> bool" where
  "is_default_parameter p = (case p of None \<Rightarrow> True | Some v \<Rightarrow> False)"

subsection \<open>Property maps and the remesher object\<close>

datatype 'h constraint_map = Constant_property_map bool | Given_map 'h

text \<open>
  The face patch map is either the caller's or an \<^verbatim>\<open>internal::Connected_components_pmap\<close>,
  whose last constructor argument says whether the connected components are computed.
\<close>

datatype 'h patch_map = Given_patch_map 'h | Connected_components_pmap bool

record ('ecm, 'vcm, 'fpm) incremental_remesher =
  rm_protect :: bool
  rm_ecmap :: "'ecm constraint_map"
  rm_vcmap :: "'vcm constraint_map"
  rm_fpmap :: "'fpm patch_map"
  rm_need_aabb_tree :: bool

datatype 'm error = Precondition_violation string 'm

subsection \<open>The code outside this header\<close>

text \<open>
  One field for each function of the repository that the two entry points call and whose
  body is not among the sources. Each takes the state and returns it updated.
\<close>

record ('m, 'f, 'e, 'ecm, 'vcm, 'fpm, 'pf) collaborators =
  get_initialized_face_index_map :: "'m \<Rightarrow> 'm"
  connected_components_pmap :: "'f list \<Rightarrow> 'ecm constraint_map \<Rightarrow> bool \<Rightarrow> 'm \<Rightarrow> 'm"
  constraints_are_short_enough ::
    "'ecm constraint_map \<Rightarrow> 'fpm patch_map \<Rightarrow> real \<Rightarrow> 'm \<Rightarrow> bool \<times> 'm"
  new_remesher :: "('ecm, 'vcm, 'fpm) incremental_remesher \<Rightarrow> 'm \<Rightarrow> 'm"
  init_remeshing :: "('ecm, 'vcm, 'fpm) incremental_remesher \<Rightarrow> 'f list \<Rightarrow> 'm \<Rightarrow> 'm"
  remesher_split_long_edges :: "('ecm, 'vcm, 'fpm) incremental_remesher \<Rightarrow> real \<Rightarrow> 'm \<Rightarrow> 'm"
  collapse_short_edges ::
    "('ecm, 'vcm, 'fpm) incremental_remesher \<Rightarrow> real \<Rightarrow> real \<Rightarrow> bool \<Rightarrow> 'm \<Rightarrow> 'm"
  equalize_valences :: "('ecm, 'vcm, 'fpm) incremental_remesher \<Rightarrow> 'm \<Rightarrow> 'm"
  tangential_relaxation ::
    "('ecm, 'vcm, 'fpm) incremental_remesher \<Rightarrow> bool \<Rightarrow> uint \<Rightarrow> 'm \<Rightarrow> 'm"
  project_to_surface :: "('ecm, 'vcm, 'fpm) incremental_remesher \<Rightarrow> 'pf option \<Rightarrow> 'm \<Rightarrow> 'm"
  faces_of :: "'m \<Rightarrow> 'f list"
  remesher_split_edge_range ::
    "('ecm, 'vcm, 'fpm) incremental_remesher \<Rightarrow> 'e list \<Rightarrow> real \<Rightarrow> 'm \<Rightarrow> 'm"

subsection \<open>The precondition message and macro\<close>

definition precondition_msg :: string where
  "precondition_msg =
     ''Isotropic remeshing : protect_constraints cannot be set to'' @
     '' true with constraints larger than 4/3 * target_edge_length.'' @
     '' Remeshing aborted.''"

text \<open>
  Modelled from the spec: the macro \<^verbatim>\<open>CGAL_precondition_msg\<close> is defined outside this
  header. A violated precondition is reported at once and the operation is aborted.
\<close>

definition CGAL_precondition_msg ::
    "bool \<times> 'm \<Rightarrow> string \<Rightarrow> ('m \<Rightarrow> 'm error + 'm) \<Rightarrow> 'm error + 'm" where
  "CGAL_precondition_msg ex msg continue =
     (if fst ex then continue (snd ex) else Inl (Precondition_violation msg (snd ex)))"

subsection \<open>The loop of \<^verbatim>\<open>isotropic_remeshing\<close>\<close>

text \<open>
  \<^verbatim>\<open>for (unsigned int i = 0; i < nb_iterations; ++i) { body }\<close>, started at any \<open>i\<close>.
\<close>

function for_loop :: "uint \<Rightarrow> uint \<Rightarrow> ('m \<Rightarrow> 'm) \<Rightarrow> 'm \<Rightarrow> 'm" where
  "for_loop i nb_iterations body m =
     (if i < nb_iterations then for_loop (i + 1) nb_iterations body (body m) else m)"
  by pat_completeness auto
termination
proof (relation "measure (\<lambda>(i, nb, body, m). unat nb - unat i)")
  show "wf (measure (\<lambda>(i, nb, body, m). unat nb - unat i))"
    by simp
next
  fix i nb :: uint and body :: "'m \<Rightarrow> 'm" and m :: 'm
  assume less: "i < nb"
  then have "unat i < unat nb"
    by (simp add: word_less_nat_alt)
  moreover have "unat nb < 2 ^ 32"
    using unsigned_less [of nb, where ?'a = nat] by simp
  ultimately have "unat (i + 1) = unat i + 1"
    by (simp add: unat_word_ariths)
  with \<open>unat i < unat nb\<close>
  show "((i + 1, nb, body, body m), (i, nb, body, m))
          \<in> measure (\<lambda>(i, nb, body, m). unat nb - unat i)"
    by simp
qed

declare for_loop.simps [simp del]

subsection \<open>\<^verbatim>\<open>isotropic_remeshing\<close>\<close>

text \<open>
  The first argument says whether the macro \<^verbatim>\<open>CGAL_NO_PRECONDITIONS\<close> is defined when the
  header is compiled: the two \<^verbatim>\<open>#if !defined(CGAL_NO_PRECONDITIONS)\<close> blocks depend on it.
  The verbose output under \<^verbatim>\<open>CGAL_PMP_REMESHING_VERBOSE\<close> only prints and is left out.

  The local variables that are read from the named parameters (lines 155 to 200 and 231 to
  234) are definitions of their own, so that theorems can name them.
\<close>

text \<open>
  Line 155: the variable is a function-local \<^verbatim>\<open>static const\<close>, initialised at the first call.
  Whether the projection functor is the default is fixed by the type of the named
  parameters, so the value is the same at every call of one instantiation of the template.
\<close>

definition need_aabb_tree :: "('ecm, 'vcm, 'fpm, 'pf) named_parameters \<Rightarrow> bool" where
  "need_aabb_tree np = is_default_parameter (projection_functor np)"

definition ecmap :: "('ecm, 'vcm, 'fpm, 'pf) named_parameters \<Rightarrow> 'ecm constraint_map" where
  "ecmap np = choose_parameter (map_option Given_map (edge_is_constrained np))
                (Constant_property_map False)"

definition vcmap :: "('ecm, 'vcm, 'fpm, 'pf) named_parameters \<Rightarrow> 'vcm constraint_map" where
  "vcmap np = choose_parameter (map_option Given_map (vertex_is_constrained np))
                (Constant_property_map False)"

definition protect :: "('ecm, 'vcm, 'fpm, 'pf) named_parameters \<Rightarrow> bool" where
  "protect np = choose_parameter (protect_constraints np) False"

text \<open>The last argument of the \<^verbatim>\<open>Connected_components_pmap\<close> constructor (lines 193 to 197).\<close>

definition do_init :: "bool \<Rightarrow> ('ecm, 'vcm, 'fpm, 'pf) named_parameters \<Rightarrow> bool" where
  "do_init no_preconditions np =
     (is_default_parameter (face_patch np) \<and>
      (need_aabb_tree np \<or> (if no_preconditions then False else protect np)))"

definition fpmap :: "bool \<Rightarrow> ('ecm, 'vcm, 'fpm, 'pf) named_parameters \<Rightarrow> 'fpm patch_map" where
  "fpmap no_preconditions np =
     choose_parameter (map_option Given_patch_map (face_patch np))
       (Connected_components_pmap (do_init no_preconditions np))"

text \<open>
  Lines 199 and 200, over the reals. The same two lines in the arithmetic of \<^verbatim>\<open>double\<close> are
  \<open>low_double\<close> and \<open>high_double\<close> below.
\<close>

definition low :: "real \<Rightarrow> real" where
  "low target_edge_length = 4 / 5 * target_edge_length"

definition high :: "real \<Rightarrow> real" where
  "high target_edge_length = 4 / 3 * target_edge_length"

text \<open>The arguments of the remesher's constructor (lines 222 and 223).\<close>

definition remesher ::
    "bool \<Rightarrow> ('ecm, 'vcm, 'fpm, 'pf) named_parameters \<Rightarrow>
     ('ecm, 'vcm, 'fpm) incremental_remesher" where
  "remesher no_preconditions np =
     \<lparr> rm_protect = protect np, rm_ecmap = ecmap np, rm_vcmap = vcmap np,
       rm_fpmap = fpmap no_preconditions np, rm_need_aabb_tree = need_aabb_tree np \<rparr>"

definition nb_iterations :: "('ecm, 'vcm, 'fpm, 'pf) named_parameters \<Rightarrow> uint" where
  "nb_iterations np = choose_parameter (number_of_iterations np) 1"

definition smoothing_1d :: "('ecm, 'vcm, 'fpm, 'pf) named_parameters \<Rightarrow> bool" where
  "smoothing_1d np = choose_parameter (relax_constraints np) False"

definition nb_laplacian :: "('ecm, 'vcm, 'fpm, 'pf) named_parameters \<Rightarrow> uint" where
  "nb_laplacian np = choose_parameter (number_of_relaxation_steps np) 1"

text \<open>One pass of the loop body (lines 248 to 256).\<close>

definition loop_body ::
    "('m, 'f, 'e, 'ecm, 'vcm, 'fpm, 'pf) collaborators \<Rightarrow>
     ('ecm, 'vcm, 'fpm) incremental_remesher \<Rightarrow>
     real \<Rightarrow> ('ecm, 'vcm, 'fpm, 'pf) named_parameters \<Rightarrow> 'm \<Rightarrow> 'm" where
  "loop_body C r target_edge_length np m =
     (let m1 = (if target_edge_length > 0
                then collapse_short_edges C r (low target_edge_length)
                       (high target_edge_length) (choose_parameter (collapse_constraints np) True)
                       (remesher_split_long_edges C r (high target_edge_length) m)
                else m);
          m2 = equalize_valences C r m1;
          m3 = tangential_relaxation C r (smoothing_1d np) (nb_laplacian np) m2
      in if choose_parameter (do_project np) True
         then project_to_surface C r (projection_functor np) m3
         else m3)"

text \<open>Lines 222 to 260: the remesher is built and initialised, then the loop runs.\<close>

definition run_remesher ::
    "bool \<Rightarrow> ('m, 'f, 'e, 'ecm, 'vcm, 'fpm, 'pf) collaborators \<Rightarrow>
     'f list \<Rightarrow> real \<Rightarrow> ('ecm, 'vcm, 'fpm, 'pf) named_parameters \<Rightarrow> 'm \<Rightarrow> 'm" where
  "run_remesher no_preconditions C faces target_edge_length np m =
     (let r = remesher no_preconditions np;
          m1 = new_remesher C r m;
          m2 = init_remeshing C r faces m1
      in for_loop 0 (nb_iterations np) (loop_body C r target_edge_length np) m2)"

definition isotropic_remeshing ::
    "bool \<Rightarrow> ('m, 'f, 'e, 'ecm, 'vcm, 'fpm, 'pf) collaborators \<Rightarrow>
     'f list \<Rightarrow> real \<Rightarrow> ('ecm, 'vcm, 'fpm, 'pf) named_parameters \<Rightarrow> 'm \<Rightarrow> 'm error + 'm" where
  "isotropic_remeshing no_preconditions C faces target_edge_length np pmesh =
     (if faces = [] then Inr pmesh
      else
        let m1 = get_initialized_face_index_map C pmesh;
            m2 = connected_components_pmap C faces (ecmap np) (do_init no_preconditions np) m1
        in if no_preconditions then
             Inr (run_remesher no_preconditions C faces target_edge_length np m2)
           else if protect np then
             CGAL_precondition_msg
               (constraints_are_short_enough C (ecmap np) (fpmap no_preconditions np)
                  (high target_edge_length) m2)
               precondition_msg
               (\<lambda>m3. Inr (run_remesher no_preconditions C faces target_edge_length np m3))
           else Inr (run_remesher no_preconditions C faces target_edge_length np m2))"

subsection \<open>\<^verbatim>\<open>split_long_edges\<close>\<close>


section \<open>Observing the calls\<close>

text \<open>
  To speak about which calls the entry point makes, and in which order, every collaborator
  is wrapped so that it also appends an event to a log kept beside the state.
\<close>

datatype ('f, 'e, 'ecm, 'vcm, 'fpm, 'pf) event =
    Ev_get_initialized_face_index_map
  | Ev_connected_components_pmap "'f list" "'ecm constraint_map" bool
  | Ev_constraints_are_short_enough "'ecm constraint_map" "'fpm patch_map" real
  | Ev_new_remesher "('ecm, 'vcm, 'fpm) incremental_remesher"
  | Ev_init_remeshing "('ecm, 'vcm, 'fpm) incremental_remesher" "'f list"
  | Ev_split_long_edges real
  | Ev_collapse_short_edges real real bool
  | Ev_equalize_valences
  | Ev_tangential_relaxation bool uint
  | Ev_project_to_surface "'pf option"
  | Ev_split_edge_range "'e list" real

definition logged :: "('m \<Rightarrow> 'm) \<Rightarrow> 'ev \<Rightarrow> 'm \<times> 'ev list \<Rightarrow> 'm \<times> 'ev list" where
  "logged f ev s = (f (fst s), snd s @ [ev])"

definition traced ::
    "('m, 'f, 'e, 'ecm, 'vcm, 'fpm, 'pf) collaborators \<Rightarrow>
     ('m \<times> ('f, 'e, 'ecm, 'vcm, 'fpm, 'pf) event list,
      'f, 'e, 'ecm, 'vcm, 'fpm, 'pf) collaborators" where
  "traced C =
     \<lparr> get_initialized_face_index_map =
         logged (get_initialized_face_index_map C) Ev_get_initialized_face_index_map,
       connected_components_pmap = (\<lambda>fs ecm b.
         logged (connected_components_pmap C fs ecm b) (Ev_connected_components_pmap fs ecm b)),
       constraints_are_short_enough = (\<lambda>ecm fpm h s.
         (fst (constraints_are_short_enough C ecm fpm h (fst s)),
          snd (constraints_are_short_enough C ecm fpm h (fst s)),
          snd s @ [Ev_constraints_are_short_enough ecm fpm h])),
       new_remesher = (\<lambda>r. logged (new_remesher C r) (Ev_new_remesher r)),
       init_remeshing = (\<lambda>r fs. logged (init_remeshing C r fs) (Ev_init_remeshing r fs)),
       remesher_split_long_edges = (\<lambda>r h.
         logged (remesher_split_long_edges C r h) (Ev_split_long_edges h)),
       collapse_short_edges = (\<lambda>r l h c.
         logged (collapse_short_edges C r l h c) (Ev_collapse_short_edges l h c)),
       equalize_valences = (\<lambda>r. logged (equalize_valences C r) Ev_equalize_valences),
       tangential_relaxation = (\<lambda>r s n.
         logged (tangential_relaxation C r s n) (Ev_tangential_relaxation s n)),
       project_to_surface = (\<lambda>r pf.
         logged (project_to_surface C r pf) (Ev_project_to_surface pf)),
       faces_of = (\<lambda>s. faces_of C (fst s)),
       remesher_split_edge_range = (\<lambda>r es h.
         logged (remesher_split_edge_range C r es h) (Ev_split_edge_range es h)) \<rparr>"

text \<open>The state and the log with which a call ended, whether it returned or was aborted.\<close>

fun final_state :: "'s error + 's \<Rightarrow> 's" where
  "final_state (Inl (Precondition_violation msg s)) = s"
| "final_state (Inr s) = s"

definition calls ::
    "bool \<Rightarrow> ('m, 'f, 'e, 'ecm, 'vcm, 'fpm, 'pf) collaborators \<Rightarrow>
     'f list \<Rightarrow> real \<Rightarrow> ('ecm, 'vcm, 'fpm, 'pf) named_parameters \<Rightarrow> 'm \<Rightarrow>
     ('f, 'e, 'ecm, 'vcm, 'fpm, 'pf) event list" where
  "calls no_preconditions C faces target_edge_length np pmesh =
     snd (final_state
            (isotropic_remeshing no_preconditions (traced C) faces target_edge_length np
               (pmesh, [])))"

text \<open>The state on which the precondition is evaluated (after lines 165 to 197).\<close>

definition checked_state ::
    "bool \<Rightarrow> ('m, 'f, 'e, 'ecm, 'vcm, 'fpm, 'pf) collaborators \<Rightarrow>
     'f list \<Rightarrow> ('ecm, 'vcm, 'fpm, 'pf) named_parameters \<Rightarrow> 'm \<Rightarrow> 'm" where
  "checked_state no_preconditions C faces np pmesh =
     connected_components_pmap C faces (ecmap np) (do_init no_preconditions np)
       (get_initialized_face_index_map C pmesh)"

text \<open>The events of the straight-line parts of the entry point, for stating the lemmas.\<close>

definition entry_events ::
    "bool \<Rightarrow> 'f list \<Rightarrow> ('ecm, 'vcm, 'fpm, 'pf) named_parameters \<Rightarrow>
     ('f, 'e, 'ecm, 'vcm, 'fpm, 'pf) event list" where
  "entry_events no_preconditions faces np =
     [Ev_get_initialized_face_index_map,
      Ev_connected_components_pmap faces (ecmap np) (do_init no_preconditions np)]"

definition check_event ::
    "bool \<Rightarrow> real \<Rightarrow> ('ecm, 'vcm, 'fpm, 'pf) named_parameters \<Rightarrow>
     ('f, 'e, 'ecm, 'vcm, 'fpm, 'pf) event" where
  "check_event no_preconditions t np =
     Ev_constraints_are_short_enough (ecmap np) (fpmap no_preconditions np) (high t)"

definition setup_events ::
    "bool \<Rightarrow> 'f list \<Rightarrow> ('ecm, 'vcm, 'fpm, 'pf) named_parameters \<Rightarrow>
     ('f, 'e, 'ecm, 'vcm, 'fpm, 'pf) event list" where
  "setup_events no_preconditions faces np =
     [Ev_new_remesher (remesher no_preconditions np),
      Ev_init_remeshing (remesher no_preconditions np) faces]"

definition iteration_events ::
    "real \<Rightarrow> ('ecm, 'vcm, 'fpm, 'pf) named_parameters \<Rightarrow>
     ('f, 'e, 'ecm, 'vcm, 'fpm, 'pf) event list" where
  "iteration_events t np =
     (if t > 0
      then [Ev_split_long_edges (high t),
            Ev_collapse_short_edges (low t) (high t)
              (choose_parameter (collapse_constraints np) True)]
      else []) @
     [Ev_equalize_valences, Ev_tangential_relaxation (smoothing_1d np) (nb_laplacian np)] @
     (if choose_parameter (do_project np) True
      then [Ev_project_to_surface (projection_functor np)] else [])"

text \<open>The calls of the five stages of the pipeline, and the calls of the precondition check.\<close>

fun is_stage :: "('f, 'e, 'ecm, 'vcm, 'fpm, 'pf) event \<Rightarrow> bool" where
  "is_stage (Ev_split_long_edges h) = True"
| "is_stage (Ev_collapse_short_edges l h c) = True"
| "is_stage Ev_equalize_valences = True"
| "is_stage (Ev_tangential_relaxation s n) = True"
| "is_stage (Ev_project_to_surface pf) = True"
| "is_stage ev = False"

fun is_check :: "('f, 'e, 'ecm, 'vcm, 'fpm, 'pf) event \<Rightarrow> bool" where
  "is_check (Ev_constraints_are_short_enough ecm fpm h) = True"
| "is_check ev = False"

fun is_split_or_collapse :: "('f, 'e, 'ecm, 'vcm, 'fpm, 'pf) event \<Rightarrow> bool" where
  "is_split_or_collapse (Ev_split_long_edges h) = True"
| "is_split_or_collapse (Ev_collapse_short_edges l h c) = True"
| "is_split_or_collapse (Ev_split_edge_range es h) = True"
| "is_split_or_collapse ev = False"

text \<open>
  Modelled from the spec: \<^verbatim>\<open>Incremental_remesher::init_remeshing\<close> is in
  \<^verbatim>\<open>remesh_impl.h\<close>, not among the sources. By the spec, initialisation builds the spatial
  index conditionally, namely when the remesher was constructed with the build flag (the
  last constructor argument); the index is then read-only, and no stage builds it.
\<close>

fun builds_spatial_index :: "('f, 'e, 'ecm, 'vcm, 'fpm, 'pf) event \<Rightarrow> bool" where
  "builds_spatial_index (Ev_init_remeshing r fs) = rm_need_aabb_tree r"
| "builds_spatial_index ev = False"

section \<open>A small instance\<close>

text \<open>
  Modelled from the spec: \<^verbatim>\<open>internal::constraints_are_short_enough\<close> (not among the sources)
  says whether no constrained edge is longer than the bound (spec 4.7 and 7). This instance
  serves to evaluate the entry point on concrete inputs: the state is the list of the
  lengths of the constrained edges of a mesh, and the stages leave it as it is.
\<close>

definition lengths_only :: "(real list, nat, nat, unit, unit, unit, unit) collaborators" where
  "lengths_only =
     \<lparr> get_initialized_face_index_map = (\<lambda>m. m),
       connected_components_pmap = (\<lambda>fs ecm b m. m),
       constraints_are_short_enough = (\<lambda>ecm fpm h m. (list_all (\<lambda>l. l \<le> h) m, m)),
       new_remesher = (\<lambda>r m. m),
       init_remeshing = (\<lambda>r fs m. m),
       remesher_split_long_edges = (\<lambda>r h m. m),
       collapse_short_edges = (\<lambda>r l h c m. m),
       equalize_valences = (\<lambda>r m. m),
       tangential_relaxation = (\<lambda>r s n m. m),
       project_to_surface = (\<lambda>r pf m. m),
       faces_of = (\<lambda>m. []),
       remesher_split_edge_range = (\<lambda>r es h m. m) \<rparr>"

section \<open>Double precision arithmetic\<close>

text \<open>
  The entry points above are embedded over the reals. Where a statement depends on the
  rounding of \<^verbatim>\<open>double\<close>, the arithmetic of the C++ type is made explicit: a \<^verbatim>\<open>double\<close> is a
  real number with a significand of 53 bits, and every operation yields the exact result
  rounded to the nearest such number, ties going to the even significand (IEEE 754
  binary64, round to nearest even, the default mode). The range of the exponent is not
  modelled: the functions below agree with the hardware as long as no result overflows
  (magnitude \<open>2 ^ 1024\<close> and above) or is subnormal (magnitude below \<open>2 ^ - 1022\<close>).
\<close>





section \<open>The remesher's \<^verbatim>\<open>split_long_edges\<close> on an edge range\<close>

text \<open>
  Modelled from the spec: \<^verbatim>\<open>Incremental_remesher::split_long_edges(edges, max_length)\<close>, which
  the entry point \<^verbatim>\<open>split_long_edges\<close> calls at line 365, is in \<^verbatim>\<open>remesh_impl.h\<close>, not among
  the sources. By the spec (4.2) it works on a working set seeded from the edge range: it
  repeatedly selects an edge whose current length exceeds \<^verbatim>\<open>max_length\<close>, splits it at the
  split point (the midpoint of the edge, or the midpoint along the constraint curve, or a
  point that the caller of \<open>split\<close> supplies, 4.1), and puts the two sub-edges back into the
  working set if they still exceed the threshold; it ends when no edge of the set exceeds
  the threshold.

  The model keeps the geometry of the edges only: an edge is the segment between the points
  of its two vertices. The split point and the length of an edge come from the geometric
  traits, which the entry point takes as a named parameter (line 336), so they are
  parameters of the model. The state of the loop is the working set together with the
  edges of the mesh that are outside it. The selected edge is the first one of the working
  set that is too long. Not returning is the value \<open>None\<close>.
\<close>

type_synonym point = "real \<times> real \<times> real"

type_synonym segment = "point \<times> point"

text \<open>
  Modelled from the spec: what the loop asks of the geometric traits (spec 2 and 4.2): the
  point at which an edge is split, and the length of an edge.
\<close>

record traits =
  split_point :: "segment \<Rightarrow> point"
  length_of :: "segment \<Rightarrow> real"

text \<open>Modelled from the spec: the two sub-edges that a split produces (4.1 and 4.2).\<close>

definition sub_edges :: "traits \<Rightarrow> segment \<Rightarrow> segment list" where
  "sub_edges T e = [(fst e, split_point T e), (split_point T e, snd e)]"




text \<open>
  Modelled from the spec: what \<^verbatim>\<open>split_long_edges\<close> makes of a collection of edges (4.2): an
  edge longer than the threshold is replaced by its two sub-edges, again and again, until
  no edge is longer than the threshold. The collections are multisets, since the order in
  which the edges are selected is left open.
\<close>

inductive splits_to :: "traits \<Rightarrow> real \<Rightarrow> segment multiset \<Rightarrow> segment multiset \<Rightarrow> bool"
  for T :: traits and max_length :: real where
  all_short: "\<forall>e\<in>#W. length_of T e \<le> max_length \<Longrightarrow> splits_to T max_length W W"
| split_longer: "max_length < length_of T e \<Longrightarrow>
          splits_to T max_length (W + mset (sub_edges T e)) R \<Longrightarrow>
          splits_to T max_length (add_mset e W) R"


text \<open>
  For the termination proof: how many times a length has to be multiplied by \<open>c\<close> until it
  is at most the bound, and how many splits an edge can still cause.
\<close>

definition rounds_left :: "real \<Rightarrow> real \<Rightarrow> real \<Rightarrow> nat" where
  "rounds_left c L l = (LEAST k. l * c ^ k \<le> L)"

definition splits_left :: "traits \<Rightarrow> real \<Rightarrow> real \<Rightarrow> segment \<Rightarrow> nat" where
  "splits_left T c L e = 2 ^ rounds_left c L (length_of T e) - 1"

text \<open>
  Modelled from the spec: the squared distance of the geometric traits (spec 2 and 6), over
  the reals.
\<close>

definition squared_distance :: "point \<Rightarrow> point \<Rightarrow> real" where
  "squared_distance p q =
     (case p of (px, py, pz) \<Rightarrow> case q of (qx, qy, qz) \<Rightarrow>
        (px - qx)\<^sup>2 + (py - qy)\<^sup>2 + (pz - qz)\<^sup>2)"








section \<open>The remesher's \<^verbatim>\<open>project_to_surface\<close>\<close>

text \<open>
  Modelled from the spec: \<^verbatim>\<open>Incremental_remesher::project_to_surface\<close>, called at line 256,
  is in \<^verbatim>\<open>remesh_impl.h\<close>, not among the sources. By the spec (4.6), for every vertex whose
  point was modified in the current iteration it replaces the point with the result of the
  projection functor at that vertex. The vertex point map is a function from vertices to
  points; the functor is called with a vertex and may read the current points.
\<close>

definition project_vertex ::
    "(('v \<Rightarrow> point) \<Rightarrow> 'v \<Rightarrow> point) \<Rightarrow> 'v \<Rightarrow> ('v \<Rightarrow> point) \<Rightarrow> ('v \<Rightarrow> point)" where
  "project_vertex proj v vpmap = vpmap (v := proj vpmap v)"

text \<open>
  Modelled from the spec: the stage (4.6), over the vertices modified in the iteration.
\<close>

definition project_to_surface_impl ::
    "(('v \<Rightarrow> point) \<Rightarrow> 'v \<Rightarrow> point) \<Rightarrow> 'v list \<Rightarrow> ('v \<Rightarrow> point) \<Rightarrow> ('v \<Rightarrow> point)" where
  "project_to_surface_impl proj modified vpmap = fold (project_vertex proj) modified vpmap"

text \<open>Modelled from the spec: the Euclidean distance of two points (spec 2 and 6).\<close>

definition distance :: "point \<Rightarrow> point \<Rightarrow> real" where
  "distance p q = sqrt (squared_distance p q)"

text \<open>
  Modelled from the spec: a closest-point query against a reference surface (4.6), within a
  tolerance (spec 8, ``within tolerance''). The surface is a set of points. For every
  point \<open>p\<close> the surface has a point \<open>c\<close> that is closest to \<open>p\<close>, no point of the surface
  being nearer, and the answer of the query is at most the tolerance away from it. With
  the tolerance \<open>0\<close> the answer is a closest point itself.
\<close>

definition is_closest_point_query_within :: "real \<Rightarrow> point set \<Rightarrow> (point \<Rightarrow> point) \<Rightarrow> bool" where
  "is_closest_point_query_within tolerance surface closest_point \<longleftrightarrow>
     (\<forall>p. \<exists>c\<in>surface. (\<forall>q\<in>surface. distance p c \<le> distance p q) \<and>
                         distance (closest_point p) c \<le> tolerance)"

text \<open>
  Modelled from the spec: a functor that queries the closest point of the vertex's current
  point (4.6); the default functor does so on the spatial index.
\<close>

definition default_functor :: "(point \<Rightarrow> point) \<Rightarrow> ('v \<Rightarrow> point) \<Rightarrow> 'v \<Rightarrow> point" where
  "default_functor closest_point vpmap v = closest_point (vpmap v)"

text \<open>
  Modelled from the spec: the collaborators of \<^verbatim>\<open>isotropic_remeshing\<close> with the stage above as
  the remesher's \<^verbatim>\<open>project_to_surface\<close>. The state is the vertex point map. The functor is
  the one of the caller or, by default, the query on the spatial index (4.6). The
  vertices modified in the iteration are a parameter. The other members leave the points
  as they are, so that between two projections nothing mutates the mesh.
\<close>

definition projecting_remesher ::
    "(point \<Rightarrow> point) \<Rightarrow> 'v list \<Rightarrow>
     ('v \<Rightarrow> point, unit, unit, unit, unit, unit, ('v \<Rightarrow> point) \<Rightarrow> 'v \<Rightarrow> point) collaborators" where
  "projecting_remesher index_query modified =
     \<lparr> get_initialized_face_index_map = (\<lambda>m. m),
       connected_components_pmap = (\<lambda>fs ecm b m. m),
       constraints_are_short_enough = (\<lambda>ecm fpm h m. (True, m)),
       new_remesher = (\<lambda>r m. m),
       init_remeshing = (\<lambda>r fs m. m),
       remesher_split_long_edges = (\<lambda>r h m. m),
       collapse_short_edges = (\<lambda>r l h c m. m),
       equalize_valences = (\<lambda>r m. m),
       tangential_relaxation = (\<lambda>r s n m. m),
       project_to_surface = (\<lambda>r pf vpmap.
         project_to_surface_impl (choose_parameter pf (default_functor index_query))
           modified vpmap),
       faces_of = (\<lambda>m. []),
       remesher_split_edge_range = (\<lambda>r es h m. m) \<rparr>"

text \<open>
  Concrete inputs: as reference surface the plane \<open>z = 0\<close>; a query that answers with a point
  above the foot of the perpendicular, at most \<open>1/1024\<close> off the plane; and vertices one unit
  above the plane.
\<close>

definition ground_plane :: "point set" where
  "ground_plane = {p. snd (snd p) = 0}"

definition rough_drop_to_ground :: "point \<Rightarrow> point" where
  "rough_drop_to_ground p = (case p of (x, y, z) \<Rightarrow> (x, y, min 1 \<bar>z\<bar> / 1024))"

definition points_above :: "nat \<Rightarrow> point" where
  "points_above v = (real v, 0, 1)"

section \<open>The connectivity of the mesh and the three topological editors\<close>

text \<open>
  Modelled from the spec: the mesh data structure, the topological editors (split,
  collapse, flip) and the stages that apply them are in \<^verbatim>\<open>remesh_impl.h\<close> and in the Euler
  operations of the library, not among the sources. The model keeps the connectivity only:
  a mesh is the set of its faces, and a face is the set of its vertices. An edge is a set
  of two vertices of one face; it borders the faces that contain it. The mesh is a
  triangulated manifold with boundary when every face is a triangle and every edge borders
  one or two faces.
\<close>

type_synonym 'v mesh = "'v set set"

text \<open>Modelled from the spec: the faces that an edge borders (spec 3).\<close>

definition faces_at :: "'v mesh \<Rightarrow> 'v set \<Rightarrow> 'v set set" where
  "faces_at F e = {f \<in> F. e \<subseteq> f}"

text \<open>Modelled from the spec: the edges of the mesh (spec 3).\<close>

definition edges_of :: "'v mesh \<Rightarrow> 'v set set" where
  "edges_of F = (\<Union>f\<in>F. \<Union>x\<in>f. \<Union>y\<in>f - {x}. {{x, y}})"

text \<open>
  Modelled from the spec: the invariant of the mesh (spec 3 and 8): every face is a
  triangle; every edge borders one or two faces.
\<close>

definition triangulated_manifold :: "'v mesh \<Rightarrow> bool" where
  "triangulated_manifold F \<longleftrightarrow>
     finite F \<and> (\<forall>f\<in>F. card f = 3) \<and>
     (\<forall>e\<in>edges_of F. card (faces_at F e) = 1 \<or> card (faces_at F e) = 2)"

text \<open>
  Modelled from the spec: by 4.1, \<open>split\<close> inserts a new vertex \<open>m\<close> that subdivides the edge
  \<open>{a, b}\<close> and each of its incident triangles into two. \<open>flip\<close> replaces the edge \<open>{a, b}\<close>
  by the other diagonal \<open>{c, d}\<close> of its two incident triangles. \<open>collapse\<close> removes the edge
  \<open>{a, b}\<close> by merging \<open>b\<close> into the surviving vertex \<open>a\<close> and removing the incident triangles.
\<close>

definition split_edge :: "'v mesh \<Rightarrow> 'v \<Rightarrow> 'v \<Rightarrow> 'v \<Rightarrow> 'v mesh" where
  "split_edge F a b m =
     (F - faces_at F {a, b}) \<union>
     (\<lambda>f. insert m (f - {b})) ` faces_at F {a, b} \<union>
     (\<lambda>f. insert m (f - {a})) ` faces_at F {a, b}"

text \<open>Modelled from the spec: \<open>flip(edge)\<close> (4.1).\<close>

definition flip_edge :: "'v mesh \<Rightarrow> 'v \<Rightarrow> 'v \<Rightarrow> 'v \<Rightarrow> 'v \<Rightarrow> 'v mesh" where
  "flip_edge F a b c d = (F - {{a, b, c}, {a, b, d}}) \<union> {{a, c, d}, {b, c, d}}"

text \<open>Modelled from the spec: merging the endpoint \<open>b\<close> into \<open>a\<close> in one face (4.1).\<close>

definition merge_vertex :: "'v \<Rightarrow> 'v \<Rightarrow> 'v set \<Rightarrow> 'v set" where
  "merge_vertex a b f = (if b \<in> f then insert a (f - {b}) else f)"

text \<open>Modelled from the spec: \<open>collapse(edge, which_endpoint_survives)\<close> (4.1).\<close>

definition collapse_edge :: "'v mesh \<Rightarrow> 'v \<Rightarrow> 'v \<Rightarrow> 'v mesh" where
  "collapse_edge F a b = merge_vertex a b ` (F - faces_at F {a, b})"

text \<open>
  Modelled from the spec: by 4.1, a collapse must be refused when the link condition fails,
  that is, when the collapse would create a duplicate face or a non-manifold edge.
\<close>

definition link_condition :: "'v mesh \<Rightarrow> 'v \<Rightarrow> 'v \<Rightarrow> bool" where
  "link_condition F a b \<longleftrightarrow>
     inj_on (merge_vertex a b) (F - faces_at F {a, b}) \<and>
     (\<forall>e\<in>edges_of (collapse_edge F a b). card (faces_at (collapse_edge F a b) e) \<le> 2)"

text \<open>
  Modelled from the spec: by 4.1, one application of an editor. A split needs an existing
  edge and a new vertex. A collapse needs an existing edge and the link condition. A flip
  is refused on a boundary edge (it needs two incident triangles) and when it would create
  a duplicate edge (the other diagonal must not be an edge already). The further reasons
  for refusing (constraints, short or long edges, inverted triangles) only remove steps.
  A refused edit leaves the mesh as it is.
\<close>

inductive split_step :: "'v mesh \<Rightarrow> 'v mesh \<Rightarrow> bool" where
  split: "a \<noteq> b \<Longrightarrow> faces_at F {a, b} \<noteq> {} \<Longrightarrow> m \<notin> \<Union>F \<Longrightarrow>
          split_step F (split_edge F a b m)"

text \<open>Modelled from the spec: one collapse that is not refused (4.1).\<close>

inductive collapse_step :: "'v mesh \<Rightarrow> 'v mesh \<Rightarrow> bool" where
  collapse: "a \<noteq> b \<Longrightarrow> faces_at F {a, b} \<noteq> {} \<Longrightarrow> link_condition F a b \<Longrightarrow>
             collapse_step F (collapse_edge F a b)"

text \<open>Modelled from the spec: one flip that is not refused (4.1).\<close>

inductive flip_step :: "'v mesh \<Rightarrow> 'v mesh \<Rightarrow> bool" where
  flip: "faces_at F {a, b} = {{a, b, c}, {a, b, d}} \<Longrightarrow> c \<noteq> d \<Longrightarrow> faces_at F {c, d} = {} \<Longrightarrow>
         flip_step F (flip_edge F a b c d)"

text \<open>
  Modelled from the spec: by 4.2 to 4.6, \<^verbatim>\<open>split_long_edges\<close> applies splits,
  \<^verbatim>\<open>collapse_short_edges\<close> applies collapses, \<^verbatim>\<open>equalize_valences\<close> applies flips, each any
  number of times; \<^verbatim>\<open>tangential_relaxation\<close> and \<^verbatim>\<open>project_to_surface\<close> move points and leave
  the connectivity as it is.
\<close>

definition split_long_edges_stage :: "'v mesh \<Rightarrow> 'v mesh \<Rightarrow> bool" where
  "split_long_edges_stage = split_step\<^sup>*\<^sup>*"

text \<open>Modelled from the spec: \<^verbatim>\<open>collapse_short_edges\<close> (4.3) applies collapses.\<close>

definition collapse_short_edges_stage :: "'v mesh \<Rightarrow> 'v mesh \<Rightarrow> bool" where
  "collapse_short_edges_stage = collapse_step\<^sup>*\<^sup>*"

text \<open>Modelled from the spec: \<^verbatim>\<open>equalize_valences\<close> (4.4) applies flips.\<close>

definition equalize_valences_stage :: "'v mesh \<Rightarrow> 'v mesh \<Rightarrow> bool" where
  "equalize_valences_stage = flip_step\<^sup>*\<^sup>*"

text \<open>
  Modelled from the spec: \<^verbatim>\<open>tangential_relaxation\<close> (4.5) repositions vertices only.
\<close>

definition tangential_relaxation_stage :: "'v mesh \<Rightarrow> 'v mesh \<Rightarrow> bool" where
  "tangential_relaxation_stage F F' \<longleftrightarrow> F' = F"

text \<open>
  Modelled from the spec: \<^verbatim>\<open>project_to_surface\<close> (4.6) replaces points of vertices only.
\<close>

definition project_to_surface_stage :: "'v mesh \<Rightarrow> 'v mesh \<Rightarrow> bool" where
  "project_to_surface_stage F F' \<longleftrightarrow> F' = F"

text \<open>A concrete mesh: two triangles that share the edge \<open>{1, 2}\<close>.\<close>

definition two_triangles :: "nat mesh" where
  "two_triangles = {{1, 2, 3}, {1, 2, 4}}"

section \<open>The loop and the log\<close>

lemma unat_succ_less: "(i::uint) < nb \<Longrightarrow> unat (i + 1) = Suc (unat i)"
proof -
  assume "i < nb"
  then have "unat i < unat nb"
    by (simp add: word_less_nat_alt)
  moreover have "unat nb < 2 ^ 32"
    using unsigned_less [of nb, where ?'a = nat] by simp
  ultimately show ?thesis
    by (simp add: unat_word_ariths)
qed

lemma for_loop_funpow_from:
  "i \<le> nb \<Longrightarrow> for_loop i nb body m = (body ^^ (unat nb - unat i)) m"
proof (induction i nb body m rule: for_loop.induct)
  case (1 i nb body m)
  show ?case
  proof (cases "i < nb")
    case True
    then have s: "unat (i + 1) = Suc (unat i)" by (rule unat_succ_less)
    from True have lt: "unat i < unat nb" by (simp add: word_less_nat_alt)
    then have le: "i + 1 \<le> nb" using s by (simp add: word_le_nat_alt)
    have "for_loop i nb body m = for_loop (i + 1) nb body (body m)"
      using True by (simp add: for_loop.simps [of i])
    also have "\<dots> = (body ^^ (unat nb - unat (i + 1))) (body m)"
      using "1.IH" [OF True le] .
    also have "\<dots> = (body ^^ (unat nb - unat i)) m"
    proof -
      have "unat nb - unat i = Suc (unat nb - unat (i + 1))" using lt s by simp
      then show ?thesis by (simp add: funpow_swap1)
    qed
    finally show ?thesis .
  next
    case False
    with "1.prems" have "i = nb" by simp
    then show ?thesis by (simp add: for_loop.simps [of nb])
  qed
qed

text \<open>The loop runs its body as many times as the value of the unsigned counter bound.\<close>

lemma for_loop_funpow: "for_loop 0 nb body m = (body ^^ unat nb) m"
  using for_loop_funpow_from [of 0 nb body m] by simp

lemma traced_get_initialized_face_index_map:
  "get_initialized_face_index_map (traced C) (m, tr) =
     (get_initialized_face_index_map C m, tr @ [Ev_get_initialized_face_index_map])"
  by (simp add: traced_def logged_def)

lemma traced_connected_components_pmap:
  "connected_components_pmap (traced C) fs ecm b (m, tr) =
     (connected_components_pmap C fs ecm b m, tr @ [Ev_connected_components_pmap fs ecm b])"
  by (simp add: traced_def logged_def)

lemma traced_constraints_are_short_enough:
  "constraints_are_short_enough (traced C) ecm fpm h (m, tr) =
     (fst (constraints_are_short_enough C ecm fpm h m),
      snd (constraints_are_short_enough C ecm fpm h m),
      tr @ [Ev_constraints_are_short_enough ecm fpm h])"
  by (simp add: traced_def)

lemma traced_new_remesher:
  "new_remesher (traced C) r (m, tr) = (new_remesher C r m, tr @ [Ev_new_remesher r])"
  by (simp add: traced_def logged_def)

lemma traced_init_remeshing:
  "init_remeshing (traced C) r fs (m, tr) =
     (init_remeshing C r fs m, tr @ [Ev_init_remeshing r fs])"
  by (simp add: traced_def logged_def)

lemma loop_body_traced:
  "loop_body (traced C) r t np (m, tr) = (loop_body C r t np m, tr @ iteration_events t np)"
  by (simp add: loop_body_def traced_def logged_def iteration_events_def Let_def)

lemma funpow_loop_body_traced:
  "(loop_body (traced C) r t np ^^ n) (m, tr) =
     ((loop_body C r t np ^^ n) m, tr @ concat (replicate n (iteration_events t np)))"
proof (induction n arbitrary: m tr)
  case 0
  show ?case by simp
next
  case (Suc n)
  have "(loop_body (traced C) r t np ^^ Suc n) (m, tr) =
          (loop_body (traced C) r t np ^^ n) (loop_body (traced C) r t np (m, tr))"
    by (simp add: funpow_swap1)
  also have "\<dots> = (loop_body (traced C) r t np ^^ n)
                     (loop_body C r t np m, tr @ iteration_events t np)"
    by (simp add: loop_body_traced)
  also have "\<dots> = ((loop_body C r t np ^^ n) (loop_body C r t np m),
                    (tr @ iteration_events t np) @ concat (replicate n (iteration_events t np)))"
    by (rule Suc.IH)
  also have "\<dots> = ((loop_body C r t np ^^ Suc n) m,
                    tr @ concat (replicate (Suc n) (iteration_events t np)))"
    by (simp add: funpow_swap1)
  finally show ?case .
qed

lemma run_remesher_traced:
  "run_remesher no_pre (traced C) faces t np (m, tr) =
     (run_remesher no_pre C faces t np m,
      tr @ setup_events no_pre faces np @
        concat (replicate (unat (nb_iterations np)) (iteration_events t np)))"
  by (simp add: run_remesher_def Let_def for_loop_funpow funpow_loop_body_traced
        traced_new_remesher traced_init_remeshing setup_events_def)

subsection \<open>The log of a call, case by case\<close>

lemma calls_empty: "calls no_pre C [] t np pmesh = []"
  by (simp add: calls_def isotropic_remeshing_def)

lemma calls_unchecked:
  assumes "faces \<noteq> []" and "no_pre \<or> \<not> protect np"
  shows "calls no_pre C faces t np pmesh =
           entry_events no_pre faces np @ setup_events no_pre faces np @
           concat (replicate (unat (nb_iterations np)) (iteration_events t np))"
  using assms
  by (auto simp add: calls_def isotropic_remeshing_def Let_def run_remesher_traced
        traced_get_initialized_face_index_map traced_connected_components_pmap entry_events_def)

lemma traced_check_failed:
  assumes "faces \<noteq> []" and "\<not> no_pre" and "protect np"
    and "\<not> fst (constraints_are_short_enough C (ecmap np) (fpmap no_pre np) (high t)
                  (checked_state no_pre C faces np pmesh))"
  shows "isotropic_remeshing no_pre (traced C) faces t np (pmesh, []) =
           Inl (Precondition_violation precondition_msg
                  (snd (constraints_are_short_enough C (ecmap np) (fpmap no_pre np) (high t)
                         (checked_state no_pre C faces np pmesh)),
                   entry_events no_pre faces np @ [check_event no_pre t np]))"
  using assms
  by (simp add: isotropic_remeshing_def Let_def CGAL_precondition_msg_def
        traced_get_initialized_face_index_map traced_connected_components_pmap
        traced_constraints_are_short_enough entry_events_def check_event_def checked_state_def)

lemma calls_check_failed:
  assumes "faces \<noteq> []" and "\<not> no_pre" and "protect np"
    and "\<not> fst (constraints_are_short_enough C (ecmap np) (fpmap no_pre np) (high t)
                  (checked_state no_pre C faces np pmesh))"
  shows "calls no_pre C faces t np pmesh =
           entry_events no_pre faces np @ [check_event no_pre t np]"
  by (simp add: calls_def traced_check_failed [OF assms])

lemma calls_check_passed:
  assumes "faces \<noteq> []" and "\<not> no_pre" and "protect np"
    and "fst (constraints_are_short_enough C (ecmap np) (fpmap no_pre np) (high t)
                  (checked_state no_pre C faces np pmesh))"
  shows "calls no_pre C faces t np pmesh =
           entry_events no_pre faces np @ [check_event no_pre t np] @
           setup_events no_pre faces np @
           concat (replicate (unat (nb_iterations np)) (iteration_events t np))"
  using assms
  by (simp add: calls_def isotropic_remeshing_def Let_def CGAL_precondition_msg_def
        traced_get_initialized_face_index_map traced_connected_components_pmap
        traced_constraints_are_short_enough entry_events_def check_event_def checked_state_def
        run_remesher_traced)

text \<open>A call returns unless the face range is not empty and the compiled-in check fails.\<close>

lemma returns_iff:
  "(\<exists>m'. isotropic_remeshing no_pre C faces t np pmesh = Inr m') \<longleftrightarrow>
     (faces = [] \<or> no_pre \<or> \<not> protect np \<or>
      fst (constraints_are_short_enough C (ecmap np) (fpmap no_pre np) (high t)
             (checked_state no_pre C faces np pmesh)))"
  by (simp add: isotropic_remeshing_def Let_def CGAL_precondition_msg_def checked_state_def)

lemma stage_calls_iteration:
  "filter is_stage (iteration_events t np) = iteration_events t np"
  by (simp add: iteration_events_def)

lemma filter_concat_replicate:
  "filter P (concat (replicate n xs)) = concat (replicate n (filter P xs))"
  by (induction n) simp_all

lemma calls_cases:
  obtains (empty) "faces = []" and "calls no_pre C faces t np pmesh = []"
  | (aborted) "faces \<noteq> []" and "\<not> no_pre" and "protect np" and
      "\<not> fst (constraints_are_short_enough C (ecmap np) (fpmap no_pre np) (high t)
                (checked_state no_pre C faces np pmesh))" and
      "calls no_pre C faces t np pmesh =
        entry_events no_pre faces np @ [check_event no_pre t np]"
  | (checked) "faces \<noteq> []" and "\<not> no_pre" and "protect np" and
      "fst (constraints_are_short_enough C (ecmap np) (fpmap no_pre np) (high t)
                (checked_state no_pre C faces np pmesh))" and
      "calls no_pre C faces t np pmesh =
        entry_events no_pre faces np @ [check_event no_pre t np] @
        setup_events no_pre faces np @
        concat (replicate (unat (nb_iterations np)) (iteration_events t np))"
  | (skipped) "faces \<noteq> []" and "no_pre \<or> \<not> protect np" and
      "calls no_pre C faces t np pmesh =
        entry_events no_pre faces np @ setup_events no_pre faces np @
        concat (replicate (unat (nb_iterations np)) (iteration_events t np))"
proof (cases "faces = []")
  case True
  show ?thesis
    by (rule empty [OF True]) (simp add: True calls_empty)
next
  case nonempty: False
  show ?thesis
  proof (cases "no_pre \<or> \<not> protect np")
    case True
    show ?thesis
      by (rule skipped [OF nonempty True]) (rule calls_unchecked [OF nonempty True])
  next
    case False
    then have np: "\<not> no_pre" and p: "protect np" by simp_all
    show ?thesis
    proof (cases "fst (constraints_are_short_enough C (ecmap np) (fpmap no_pre np) (high t)
                  (checked_state no_pre C faces np pmesh))")
      case True
      show ?thesis
        by (rule checked [OF nonempty np p True]) (rule calls_check_passed [OF nonempty np p True])
    next
      case False
      show ?thesis
        by (rule aborted [OF nonempty np p False]) (rule calls_check_failed [OF nonempty np p False])
    qed
  qed
qed

lemmas np_defs = all_default_def protect_def choose_parameter_def nb_iterations_def
   ecmap_def do_init_def is_default_parameter_def need_aabb_tree_def remesher_def vcmap_def
   fpmap_def high_def low_def smoothing_1d_def nb_laplacian_def
lemmas ev_defs = entry_events_def setup_events_def iteration_events_def check_event_def

lemma loop_body_lengths_only: "loop_body lengths_only r t np = id"
  by (rule ext) (simp add: loop_body_def lengths_only_def Let_def)

lemma run_remesher_lengths_only: "run_remesher no_pre lengths_only faces t np m = m"
proof -
  have "for_loop 0 (nb_iterations np) (loop_body lengths_only (remesher no_pre np) t np) m = m" for m
    by (simp add: for_loop_funpow loop_body_lengths_only)
  moreover have "new_remesher lengths_only r m = m" for r m
    by (simp add: lengths_only_def)
  moreover have "init_remeshing lengths_only r fs m = m" for r fs m
    by (simp add: lengths_only_def)
  ultimately show ?thesis
    by (simp add: run_remesher_def Let_def)
qed

lemma lengths_only_simps:
  "get_initialized_face_index_map lengths_only m = m"
  "connected_components_pmap lengths_only fs ecm b m = m"
  "constraints_are_short_enough lengths_only ecm fpm h m = (list_all (\<lambda>l. l \<le> h) m, m)"
  by (simp_all add: lengths_only_def)

section \<open>The claims about the entry point\<close>

text \<open>
  C10. A call of \<^verbatim>\<open>isotropic_remeshing\<close> with an empty face range returns at once: the
  state (the mesh, the vertex points and all maps) is returned as it was given, for any
  behaviour of the collaborators, and no collaborator is called at all, so there is no
  precondition check, no initialisation and no iteration.
\<close>

theorem empty_face_range_is_a_no_op:
  "isotropic_remeshing no_pre C [] t np pmesh = Inr pmesh \<and>
   calls no_pre C [] t np pmesh = []"
  by (simp add: calls_empty) (simp add: isotropic_remeshing_def)

theorem empty_face_range_is_a_no_op_witness:
  "isotropic_remeshing False lengths_only ([] :: nat list) 1
     (all_default \<lparr> protect_constraints := Some True \<rparr>) [2] = Inr [2] \<and>
   calls False lengths_only ([] :: nat list) 1
     (all_default \<lparr> protect_constraints := Some True \<rparr>) [2] = []"
  using empty_face_range_is_a_no_op
          [of False lengths_only 1 "all_default \<lparr> protect_constraints := Some True \<rparr>" "[2]"]
  by simp

text \<open>
  C2. With \<^verbatim>\<open>target_edge_length = 0\<close>, for every mesh, face range and options, the call
  makes no call that splits or collapses edges, and the calls of the stages are a number of
  repetitions of: valence equalisation (the edge flips), tangential relaxation, and the
  projection (the latter unless \<^verbatim>\<open>do_project\<close> is false).
\<close>

theorem zero_target_edge_length_skips_split_and_collapse:
  "filter is_split_or_collapse (calls no_pre C faces 0 np pmesh) = [] \<and>
   (\<exists>n. filter is_stage (calls no_pre C faces 0 np pmesh) =
      concat (replicate n
        ([Ev_equalize_valences,
          Ev_tangential_relaxation (choose_parameter (relax_constraints np) False)
            (choose_parameter (number_of_relaxation_steps np) 1)] @
         (if choose_parameter (do_project np) True
          then [Ev_project_to_surface (projection_functor np)] else []))))"
proof -
  let ?it = "[Ev_equalize_valences,
          Ev_tangential_relaxation (choose_parameter (relax_constraints np) False)
            (choose_parameter (number_of_relaxation_steps np) 1)] @
         (if choose_parameter (do_project np) True
          then [Ev_project_to_surface (projection_functor np)] else [])"
  have it: "iteration_events 0 np = ?it"
    by (simp add: iteration_events_def smoothing_1d_def nb_laplacian_def)
  have no_sc: "filter is_split_or_collapse ?it = []" by simp
  have all_stage: "filter is_stage ?it = ?it" by simp
  have nil: "filter is_stage [] = concat (replicate 0 ?it)" by simp
  show ?thesis
  proof (cases rule: calls_cases [of faces no_pre C 0 np pmesh])
    case empty
    then show ?thesis using nil by auto
  next
    case aborted
    then have "filter is_stage (calls no_pre C faces 0 np pmesh) = concat (replicate 0 ?it)"
      by (simp add: entry_events_def check_event_def)
    moreover have "filter is_split_or_collapse (calls no_pre C faces 0 np pmesh) = []"
      using aborted by (simp add: entry_events_def check_event_def)
    ultimately show ?thesis by blast
  next
    case checked
    then have "filter is_stage (calls no_pre C faces 0 np pmesh) =
                 concat (replicate (unat (nb_iterations np)) ?it)"
      by (simp add: entry_events_def check_event_def setup_events_def it
            filter_concat_replicate all_stage del: append.simps)
    moreover have "filter is_split_or_collapse (calls no_pre C faces 0 np pmesh) = []"
      using checked
      by (simp add: entry_events_def check_event_def setup_events_def it
            filter_concat_replicate no_sc del: append.simps)
    ultimately show ?thesis by blast
  next
    case skipped
    then have "filter is_stage (calls no_pre C faces 0 np pmesh) =
                 concat (replicate (unat (nb_iterations np)) ?it)"
      by (simp add: entry_events_def setup_events_def it
            filter_concat_replicate all_stage del: append.simps)
    moreover have "filter is_split_or_collapse (calls no_pre C faces 0 np pmesh) = []"
      using skipped
      by (simp add: entry_events_def setup_events_def it
            filter_concat_replicate no_sc del: append.simps)
    ultimately show ?thesis by blast
  qed
qed

theorem zero_target_edge_length_skips_split_and_collapse_witness:
  "filter is_split_or_collapse
     (calls False lengths_only [0::nat] 0 (all_default \<lparr> number_of_iterations := Some 2 \<rparr>) []) = [] \<and>
   filter is_stage
     (calls False lengths_only [0::nat] 0 (all_default \<lparr> number_of_iterations := Some 2 \<rparr>) []) =
     [Ev_equalize_valences, Ev_tangential_relaxation False 1, Ev_project_to_surface None,
      Ev_equalize_valences, Ev_tangential_relaxation False 1, Ev_project_to_surface None]"
proof -
  let ?np = "all_default \<lparr> number_of_iterations := Some 2 \<rparr>
               :: (unit, unit, unit, unit) named_parameters"
  have twice: "replicate 2 x = [x, x]" for x :: "'a list"
    by (simp add: numeral_2_eq_2)
  have "filter is_stage (calls False lengths_only [0::nat] 0 ?np []) =
     [Ev_equalize_valences, Ev_tangential_relaxation False 1, Ev_project_to_surface None,
      Ev_equalize_valences, Ev_tangential_relaxation False 1, Ev_project_to_surface None]"
    by (simp add: calls_unchecked np_defs ev_defs twice)
  with zero_target_edge_length_skips_split_and_collapse [of False lengths_only "[0::nat]" ?np "[]"]
  show ?thesis by simp
qed

text \<open>
  C5, as stated, fails: with \<^verbatim>\<open>target_edge_length = 0\<close> and the default of one iteration,
  the iteration calls three stages, not five (line 248 guards the split and the collapse).
\<close>

theorem not_every_iteration_runs_five_stages:
  "filter is_stage (calls False lengths_only [0::nat] 0 all_default []) =
     [Ev_equalize_valences, Ev_tangential_relaxation False 1, Ev_project_to_surface None]"
  by (simp add: calls_unchecked np_defs ev_defs)

text \<open>
  C5, amended. For every call with a face range that is not empty and that returns (is not
  aborted by the precondition), the loop runs \<^verbatim>\<open>number_of_iterations\<close> times (once by
  default), and each pass calls, one after the other and in this order:
  \<^verbatim>\<open>split_long_edges\<close> and \<^verbatim>\<open>collapse_short_edges\<close> (both only when the target edge length is
  positive), \<^verbatim>\<open>equalize_valences\<close>, \<^verbatim>\<open>tangential_relaxation\<close>, and \<^verbatim>\<open>project_to_surface\<close>
  (unless \<^verbatim>\<open>do_project\<close> is false).
\<close>

theorem iterations_and_order_of_stages:
  assumes "faces \<noteq> []"
    and "isotropic_remeshing no_pre C faces t np pmesh = Inr m'"
  shows "filter is_stage (calls no_pre C faces t np pmesh) =
           concat (replicate (unat (choose_parameter (number_of_iterations np) 1))
             ((if t > 0
               then [Ev_split_long_edges (4 / 3 * t),
                     Ev_collapse_short_edges (4 / 5 * t) (4 / 3 * t)
                       (choose_parameter (collapse_constraints np) True)]
               else []) @
              [Ev_equalize_valences,
               Ev_tangential_relaxation (choose_parameter (relax_constraints np) False)
                 (choose_parameter (number_of_relaxation_steps np) 1)] @
              (if choose_parameter (do_project np) True
               then [Ev_project_to_surface (projection_functor np)] else [])))"
proof -
  have it: "iteration_events t np =
              (if t > 0
               then [Ev_split_long_edges (4 / 3 * t),
                     Ev_collapse_short_edges (4 / 5 * t) (4 / 3 * t)
                       (choose_parameter (collapse_constraints np) True)]
               else []) @
              [Ev_equalize_valences,
               Ev_tangential_relaxation (choose_parameter (relax_constraints np) False)
                 (choose_parameter (number_of_relaxation_steps np) 1)] @
              (if choose_parameter (do_project np) True
               then [Ev_project_to_surface (projection_functor np)] else [])"
    by (simp add: iteration_events_def high_def low_def smoothing_1d_def nb_laplacian_def)
  have returned: "no_pre \<or> \<not> protect np \<or>
      fst (constraints_are_short_enough C (ecmap np) (fpmap no_pre np) (high t)
             (checked_state no_pre C faces np pmesh))"
    using assms returns_iff [of no_pre C faces t np pmesh] by blast
  have "filter is_stage (calls no_pre C faces t np pmesh) =
          concat (replicate (unat (nb_iterations np)) (iteration_events t np))"
  proof (cases rule: calls_cases [of faces no_pre C t np pmesh])
    case empty
    with assms show ?thesis by simp
  next
    case aborted
    with returned show ?thesis by simp
  next
    case checked
    then show ?thesis
      by (simp add: entry_events_def check_event_def setup_events_def
            filter_concat_replicate stage_calls_iteration del: append.simps) 
  next
    case skipped
    then show ?thesis
      by (simp add: entry_events_def setup_events_def
            filter_concat_replicate stage_calls_iteration del: append.simps)
  qed
  then show ?thesis
    unfolding it nb_iterations_def .
qed

lemma returns_demo:
  "isotropic_remeshing False lengths_only [0::nat] t all_default [] = Inr []"
  by (simp add: isotropic_remeshing_def Let_def run_remesher_lengths_only lengths_only_simps
        protect_def all_default_def choose_parameter_def)

theorem iterations_and_order_of_stages_witness:
  "[0::nat] \<noteq> [] \<and>
   isotropic_remeshing False lengths_only [0::nat] 3
     (all_default \<lparr> number_of_iterations := Some 2 \<rparr>) [] = Inr [] \<and>
   filter is_stage (calls False lengths_only [0::nat] 3
     (all_default \<lparr> number_of_iterations := Some 2 \<rparr>) []) =
     [Ev_split_long_edges 4, Ev_collapse_short_edges (12 / 5) 4 True,
      Ev_equalize_valences, Ev_tangential_relaxation False 1, Ev_project_to_surface None,
      Ev_split_long_edges 4, Ev_collapse_short_edges (12 / 5) 4 True,
      Ev_equalize_valences, Ev_tangential_relaxation False 1, Ev_project_to_surface None]"
proof -
  have r: "isotropic_remeshing False lengths_only [0::nat] 3
     (all_default \<lparr> number_of_iterations := Some 2 \<rparr>) [] = Inr []"
    by (simp add: isotropic_remeshing_def Let_def run_remesher_lengths_only lengths_only_simps
        protect_def all_default_def choose_parameter_def)
  have n: "[0::nat] \<noteq> []" by simp
  have twice: "replicate 2 x = [x, x]" for x :: "'a list"
    by (simp add: numeral_2_eq_2)
  show ?thesis
    using iterations_and_order_of_stages [OF n r] r
    by (simp add: all_default_def choose_parameter_def twice)
qed

text \<open>
  C1, as stated, fails when the header is compiled with \<^verbatim>\<open>CGAL_NO_PRECONDITIONS\<close>: lines 202
  to 212 are then left out. Here the only constrained edge has length 2, the target edge
  length is 1 and protection is on; the call returns and has run all the stages.
\<close>

theorem no_abort_without_preconditions:
  "isotropic_remeshing True (traced lengths_only) [0::nat] 1
     (all_default \<lparr> protect_constraints := Some True \<rparr>) ([2], []) =
   Inr ([2],
      [Ev_get_initialized_face_index_map,
       Ev_connected_components_pmap [0] (Constant_property_map False) True,
       Ev_new_remesher
        \<lparr>rm_protect = True, rm_ecmap = Constant_property_map False,
           rm_vcmap = Constant_property_map False,
           rm_fpmap = Connected_components_pmap True,
           rm_need_aabb_tree = True\<rparr>,
       Ev_init_remeshing
        \<lparr>rm_protect = True, rm_ecmap = Constant_property_map False,
           rm_vcmap = Constant_property_map False,
           rm_fpmap = Connected_components_pmap True,
           rm_need_aabb_tree = True\<rparr>
        [0],
       Ev_split_long_edges (4 / 3),
       Ev_collapse_short_edges (4 / 5) (4 / 3) True, Ev_equalize_valences,
       Ev_tangential_relaxation False 1, Ev_project_to_surface None])"
proof -
  let ?np = "all_default \<lparr> protect_constraints := Some True \<rparr>
               :: (unit, unit, unit, unit) named_parameters"
  have "run_remesher True (traced lengths_only) [0::nat] 1 ?np (m, tr) =
        (m, tr @ setup_events True [0::nat] ?np @
            concat (replicate (unat (nb_iterations ?np)) (iteration_events 1 ?np)))"
    for m :: "real list" and tr :: "(nat, nat, unit, unit, unit, unit) event list"
    by (simp add: run_remesher_traced run_remesher_lengths_only)
  then show ?thesis
    by (simp add: isotropic_remeshing_def Let_def traced_get_initialized_face_index_map
          traced_connected_components_pmap lengths_only_simps np_defs ev_defs)
qed

text \<open>
  C1, amended. When the precondition checks are compiled in, the face range is not empty
  and \<^verbatim>\<open>protect_constraints\<close> is true: if the check of the constrained edges against
  \<open>4/3 * target_edge_length\<close> fails, the call ends with the precondition error and its
  message, and the only calls made before that are the initialisation of the face index
  map, the constructor of the default patch map and the check itself, so the remesher is
  neither built nor initialised and no stage runs. Whether the check fails or not, it is
  called exactly once, as the third call, before the remesher exists.
\<close>

theorem protect_precondition_aborts_before_remeshing:
  assumes "faces \<noteq> []" and "choose_parameter (protect_constraints np) False"
  shows
    "(\<not> fst (constraints_are_short_enough C (ecmap np) (fpmap False np) (4 / 3 * t)
               (checked_state False C faces np pmesh)) \<longrightarrow>
        isotropic_remeshing False (traced C) faces t np (pmesh, []) =
          Inl (Precondition_violation precondition_msg
                 (snd (constraints_are_short_enough C (ecmap np) (fpmap False np) (4 / 3 * t)
                         (checked_state False C faces np pmesh)),
                  [Ev_get_initialized_face_index_map,
                   Ev_connected_components_pmap faces (ecmap np) (do_init False np),
                   Ev_constraints_are_short_enough (ecmap np) (fpmap False np) (4 / 3 * t)]))) \<and>
     length (filter is_check (calls False C faces t np pmesh)) = 1 \<and>
     take 3 (calls False C faces t np pmesh) =
       [Ev_get_initialized_face_index_map,
        Ev_connected_components_pmap faces (ecmap np) (do_init False np),
        Ev_constraints_are_short_enough (ecmap np) (fpmap False np) (4 / 3 * t)]"
proof -
  have p: "protect np" using assms(2) by (simp add: protect_def)
  have n: "\<not> False" by simp
  have no_check: "filter is_check (iteration_events t np) = []"
    by (simp add: iteration_events_def)
  have abort: "isotropic_remeshing False (traced C) faces t np (pmesh, []) =
          Inl (Precondition_violation precondition_msg
                 (snd (constraints_are_short_enough C (ecmap np) (fpmap False np) (4 / 3 * t)
                         (checked_state False C faces np pmesh)),
                  [Ev_get_initialized_face_index_map,
                   Ev_connected_components_pmap faces (ecmap np) (do_init False np),
                   Ev_constraints_are_short_enough (ecmap np) (fpmap False np) (4 / 3 * t)]))"
    if "\<not> fst (constraints_are_short_enough C (ecmap np) (fpmap False np) (4 / 3 * t)
               (checked_state False C faces np pmesh))"
    using traced_check_failed [OF assms(1) n p, of C t pmesh] that
    by (simp add: high_def entry_events_def check_event_def)
  have count_and_prefix:
    "length (filter is_check (calls False C faces t np pmesh)) = 1 \<and>
     take 3 (calls False C faces t np pmesh) =
       [Ev_get_initialized_face_index_map,
        Ev_connected_components_pmap faces (ecmap np) (do_init False np),
        Ev_constraints_are_short_enough (ecmap np) (fpmap False np) (4 / 3 * t)]"
  proof (cases "fst (constraints_are_short_enough C (ecmap np) (fpmap False np) (high t)
               (checked_state False C faces np pmesh))")
    case True
    show ?thesis
      by (simp add: calls_check_passed [OF assms(1) n p True] entry_events_def
            check_event_def setup_events_def filter_concat_replicate no_check high_def)
  next
    case False
    show ?thesis
      by (simp add: calls_check_failed [OF assms(1) n p False] entry_events_def
            check_event_def high_def)
  qed
  from abort count_and_prefix show ?thesis by blast
qed

theorem protect_precondition_aborts_before_remeshing_witness:
  "[0::nat] \<noteq> [] \<and>
   choose_parameter (protect_constraints
     (all_default \<lparr> protect_constraints := Some True \<rparr> :: (unit, unit, unit, unit) named_parameters)) False \<and>
   \<not> fst (constraints_are_short_enough lengths_only (Constant_property_map False)
            (Connected_components_pmap True) (4 / 3 * 1) [2]) \<and>
   isotropic_remeshing False (traced lengths_only) [0::nat] 1
     (all_default \<lparr> protect_constraints := Some True \<rparr>) ([2], []) =
     Inl (Precondition_violation precondition_msg
           ([2],
            [Ev_get_initialized_face_index_map,
             Ev_connected_components_pmap [0] (Constant_property_map False) True,
             Ev_constraints_are_short_enough (Constant_property_map False)
               (Connected_components_pmap True) (4 / 3)])) \<and>
   length (filter is_check (calls False lengths_only [0::nat] 1
     (all_default \<lparr> protect_constraints := Some True \<rparr>) [2])) = 1"
proof -
  have n: "[0::nat] \<noteq> []" by simp
  have p: "choose_parameter (protect_constraints
     (all_default \<lparr> protect_constraints := Some True \<rparr> :: (unit, unit, unit, unit) named_parameters)) False"
    by (simp add: all_default_def choose_parameter_def)
  show ?thesis
    using protect_precondition_aborts_before_remeshing [OF n p, of lengths_only 1 "[2]"]
    by (simp add: lengths_only_simps checked_state_def np_defs)
qed

lemma no_build_in_iteration:
  "filter builds_spatial_index (iteration_events t np) = []"
  by (simp add: iteration_events_def)

lemma no_build_in_iterations:
  "filter builds_spatial_index (concat (replicate n (iteration_events t np))) = []"
  by (simp add: filter_concat_replicate no_build_in_iteration)

lemma takeWhile_no_stage_iterations:
  "takeWhile (\<lambda>ev. \<not> is_stage ev) (concat (replicate n (iteration_events t np))) = []"
  by (cases n) (simp_all add: iteration_events_def)

text \<open>
  C7, as stated, fails for an empty face range: no projection functor is supplied, and the
  spatial index is not built once but never, since line 138 returns before the remesher
  exists.
\<close>

theorem no_spatial_index_for_empty_face_range:
  "projection_functor (all_default :: (unit, unit, unit, unit) named_parameters) = None \<and>
   length (filter builds_spatial_index
     (calls False lengths_only ([] :: nat list) 1 all_default [])) = 0"
  by (simp add: calls_empty all_default_def)

text \<open>
  C7, amended. If the caller supplies a projection functor, no call of
  \<^verbatim>\<open>isotropic_remeshing\<close> builds the spatial index. If none is supplied, the face range is
  not empty and the call returns (is not aborted by the precondition), the spatial index is
  built exactly once, by \<^verbatim>\<open>init_remeshing\<close>, before the first call of a stage, and not again.
\<close>

theorem spatial_index_built_once_or_never:
  "(projection_functor np \<noteq> None \<longrightarrow>
      length (filter builds_spatial_index (calls no_pre C faces t np pmesh)) = 0) \<and>
   (projection_functor np = None \<and> faces \<noteq> [] \<and>
    isotropic_remeshing no_pre C faces t np pmesh = Inr m' \<longrightarrow>
      length (filter builds_spatial_index (calls no_pre C faces t np pmesh)) = 1 \<and>
      length (filter builds_spatial_index
        (takeWhile (\<lambda>ev. \<not> is_stage ev) (calls no_pre C faces t np pmesh))) = 1)"
proof -
  note its = no_build_in_iterations
  note tw = takeWhile_no_stage_iterations
  have supplied: "length (filter builds_spatial_index (calls no_pre C faces t np pmesh)) = 0"
    if "projection_functor np \<noteq> None"
  proof -
    from that have flag: "\<not> need_aabb_tree np"
      by (auto simp add: need_aabb_tree_def is_default_parameter_def)
    show ?thesis
    proof (cases rule: calls_cases [of faces no_pre C t np pmesh])
      case empty
      then show ?thesis by simp
    next
      case aborted
      then show ?thesis by (simp add: entry_events_def check_event_def)
    next
      case checked
      then show ?thesis
        using flag
        by (simp add: entry_events_def check_event_def setup_events_def remesher_def its)
    next
      case skipped
      then show ?thesis
        using flag by (simp add: entry_events_def setup_events_def remesher_def its)
    qed
  qed
  have default:
    "length (filter builds_spatial_index (calls no_pre C faces t np pmesh)) = 1 \<and>
     length (filter builds_spatial_index
       (takeWhile (\<lambda>ev. \<not> is_stage ev) (calls no_pre C faces t np pmesh))) = 1"
    if "projection_functor np = None" and "faces \<noteq> []"
      and "isotropic_remeshing no_pre C faces t np pmesh = Inr m'"
  proof -
    from that(1) have flag: "need_aabb_tree np"
      by (simp add: need_aabb_tree_def is_default_parameter_def)
    have returned: "no_pre \<or> \<not> protect np \<or>
        fst (constraints_are_short_enough C (ecmap np) (fpmap no_pre np) (high t)
               (checked_state no_pre C faces np pmesh))"
      using that returns_iff [of no_pre C faces t np pmesh] by blast
    show ?thesis
    proof (cases rule: calls_cases [of faces no_pre C t np pmesh])
      case empty
      with that show ?thesis by simp
    next
      case aborted
      with returned show ?thesis by simp
    next
      case checked
      then show ?thesis
        using flag
        by (simp add: entry_events_def check_event_def setup_events_def remesher_def
              its tw)
    next
      case skipped
      then show ?thesis
        using flag
        by (simp add: entry_events_def setup_events_def remesher_def its tw)
    qed
  qed
  from supplied default show ?thesis by blast
qed

theorem spatial_index_built_once_or_never_witness:
  "projection_functor
     (all_default \<lparr> projection_functor := Some () \<rparr> :: (unit, unit, unit, unit) named_parameters) \<noteq> None \<and>
   length (filter builds_spatial_index
     (calls False lengths_only [0::nat] 3 (all_default \<lparr> projection_functor := Some () \<rparr>) [])) = 0 \<and>
   projection_functor (all_default :: (unit, unit, unit, unit) named_parameters) = None \<and>
   [0::nat] \<noteq> [] \<and>
   isotropic_remeshing False lengths_only [0::nat] 3 all_default [] = Inr [] \<and>
   length (filter builds_spatial_index
     (calls False lengths_only [0::nat] 3 all_default [])) = 1 \<and>
   length (filter builds_spatial_index
     (takeWhile (\<lambda>ev. \<not> is_stage ev) (calls False lengths_only [0::nat] 3 all_default []))) = 1"
proof -
  let ?np = "all_default :: (unit, unit, unit, unit) named_parameters"
  let ?np' = "all_default \<lparr> projection_functor := Some () \<rparr> :: (unit, unit, unit, unit) named_parameters"
  have a: "projection_functor ?np' \<noteq> None" by (simp add: all_default_def)
  have b: "projection_functor ?np = None" by (simp add: all_default_def)
  have r: "isotropic_remeshing False lengths_only [0::nat] 3 ?np [] = Inr []"
    by (rule returns_demo)
  show ?thesis
    using spatial_index_built_once_or_never [of ?np' False lengths_only "[0::nat]" 3 "[]" "[]"]
      spatial_index_built_once_or_never [of ?np False lengths_only "[0::nat]" 3 "[]" "[]"]
      a b r
    by simp
qed

section \<open>The thresholds in double arithmetic\<close>























section \<open>Termination of the splitting of long edges\<close>


lemma rounds_left_zero: "l \<le> L \<Longrightarrow> rounds_left c L l = 0"
  by (simp add: rounds_left_def)


lemma splits_left_short: "length_of T e \<le> L \<Longrightarrow> splits_left T c L e = 0"
  by (simp add: splits_left_def rounds_left_zero)
































lemma splits_to_short: "splits_to T L W R \<Longrightarrow> \<forall>e\<in>#R. length_of T e \<le> L"
  by (induction rule: splits_to.induct) auto









section \<open>Projecting twice\<close>

lemma squared_distance_nonneg: "0 \<le> squared_distance p q"
  by (cases p; cases q) (simp add: squared_distance_def)

lemma squared_distance_self: "squared_distance p p = 0"
  by (cases p) (simp add: squared_distance_def)

lemma squared_distance_zero:
  assumes "squared_distance p q \<le> 0"
  shows "q = p"
proof -
  obtain px py pz qx qy qz where p: "p = (px, py, pz)" and q: "q = (qx, qy, qz)"
    by (cases p, cases q) auto
  from assms have s: "(px - qx)\<^sup>2 + (py - qy)\<^sup>2 + (pz - qz)\<^sup>2 \<le> 0"
    by (simp add: p q squared_distance_def)
  have "(px - qx)\<^sup>2 = 0" and "(py - qy)\<^sup>2 = 0" and "(pz - qz)\<^sup>2 = 0"
    using s zero_le_power2 [of "px - qx"] zero_le_power2 [of "py - qy"]
      zero_le_power2 [of "pz - qz"]
    by linarith+
  then show ?thesis by (simp add: p q)
qed

lemma distance_nonneg: "0 \<le> distance p q"
  by (simp add: distance_def squared_distance_nonneg)

lemma distance_self: "distance p p = 0"
  by (simp add: distance_def squared_distance_self)

lemma distance_commute: "distance p q = distance q p"
  by (cases p; cases q) (simp add: distance_def squared_distance_def power2_commute)

lemma distance_zero: "distance p q \<le> 0 \<Longrightarrow> q = p"
proof -
  assume "distance p q \<le> 0"
  then have "squared_distance p q \<le> 0"
    by (simp add: distance_def)
  then show "q = p" by (rule squared_distance_zero)
qed

lemma sqrt_sum_squares_3_triangle:
  fixes a b c d e f :: real
  shows "sqrt ((a + d)\<^sup>2 + (b + e)\<^sup>2 + (c + f)\<^sup>2)
           \<le> sqrt (a\<^sup>2 + b\<^sup>2 + c\<^sup>2) + sqrt (d\<^sup>2 + e\<^sup>2 + f\<^sup>2)"
proof -
  let ?X = "sqrt (a\<^sup>2 + b\<^sup>2)" and ?Y = "sqrt (d\<^sup>2 + e\<^sup>2)"
  have "sqrt ((a + d)\<^sup>2 + (b + e)\<^sup>2) \<le> ?X + ?Y"
    by (rule real_sqrt_sum_squares_triangle_ineq)
  then have "(a + d)\<^sup>2 + (b + e)\<^sup>2 \<le> (?X + ?Y)\<^sup>2"
    by (rule sqrt_le_D)
  then have "sqrt ((a + d)\<^sup>2 + (b + e)\<^sup>2 + (c + f)\<^sup>2) \<le> sqrt ((?X + ?Y)\<^sup>2 + (c + f)\<^sup>2)"
    by simp
  also have "\<dots> \<le> sqrt (?X\<^sup>2 + c\<^sup>2) + sqrt (?Y\<^sup>2 + f\<^sup>2)"
    by (rule real_sqrt_sum_squares_triangle_ineq)
  also have "?X\<^sup>2 = a\<^sup>2 + b\<^sup>2" by simp
  also have "?Y\<^sup>2 = d\<^sup>2 + e\<^sup>2" by simp
  finally show ?thesis .
qed

lemma distance_triangle: "distance p r \<le> distance p q + distance q r"
proof -
  obtain px py pz qx qy qz rx ry rz
    where p: "p = (px, py, pz)" and q: "q = (qx, qy, qz)" and r: "r = (rx, ry, rz)"
    by (cases p, cases q, cases r) auto
  have "px - rx = (px - qx) + (qx - rx)" and "py - ry = (py - qy) + (qy - ry)"
    and "pz - rz = (pz - qz) + (qz - rz)" by simp_all
  then have "sqrt ((px - rx)\<^sup>2 + (py - ry)\<^sup>2 + (pz - rz)\<^sup>2) =
        sqrt (((px - qx) + (qx - rx))\<^sup>2 + ((py - qy) + (qy - ry))\<^sup>2 + ((pz - qz) + (qz - rz))\<^sup>2)"
    by simp
  also have "\<dots> \<le> sqrt ((px - qx)\<^sup>2 + (py - qy)\<^sup>2 + (pz - qz)\<^sup>2) +
                    sqrt ((qx - rx)\<^sup>2 + (qy - ry)\<^sup>2 + (qz - rz)\<^sup>2)"
    by (rule sqrt_sum_squares_3_triangle)
  finally show ?thesis
    by (simp add: p q r distance_def squared_distance_def)
qed

lemma tolerance_nonneg:
  assumes "is_closest_point_query_within tolerance surface closest_point"
  shows "0 \<le> tolerance"
proof -
  from assms obtain c where "distance (closest_point (0, 0, 0)) c \<le> tolerance"
    unfolding is_closest_point_query_within_def by blast
  with distance_nonneg [of "closest_point (0, 0, 0)" c] show ?thesis by linarith
qed

lemma closest_point_twice:
  assumes "is_closest_point_query_within tolerance surface closest_point"
  shows "distance (closest_point (closest_point p)) (closest_point p) \<le> 2 * tolerance"
proof -
  let ?p' = "closest_point p"
  from assms obtain c where c: "c \<in> surface" and near: "distance ?p' c \<le> tolerance"
    unfolding is_closest_point_query_within_def by blast
  from assms obtain c' where least: "\<forall>q\<in>surface. distance ?p' c' \<le> distance ?p' q"
    and near': "distance (closest_point ?p') c' \<le> tolerance"
    unfolding is_closest_point_query_within_def by blast
  from least c have "distance ?p' c' \<le> distance ?p' c" by blast
  with near have "distance c' ?p' \<le> tolerance"
    by (simp add: distance_commute [of c' ?p'])
  with near' distance_triangle [of "closest_point ?p'" ?p' c'] show ?thesis
    by linarith
qed

lemma project_default_pointwise:
  assumes "distinct modified"
  shows "project_to_surface_impl (default_functor cp) modified vpmap =
           (\<lambda>v. if v \<in> set modified then cp (vpmap v) else vpmap v)"
  using assms
proof (induction modified arbitrary: vpmap)
  case Nil
  show ?case by (simp add: project_to_surface_impl_def)
next
  case (Cons a modified)
  then have d: "distinct modified" and a: "a \<notin> set modified" by simp_all
  have "project_to_surface_impl (default_functor cp) (a # modified) vpmap =
          project_to_surface_impl (default_functor cp) modified
            (project_vertex (default_functor cp) a vpmap)"
    by (simp add: project_to_surface_impl_def)
  also have "\<dots> = (\<lambda>v. if v \<in> set modified
                          then cp (project_vertex (default_functor cp) a vpmap v)
                          else project_vertex (default_functor cp) a vpmap v)"
    by (rule Cons.IH [OF d])
  also have "\<dots> = (\<lambda>v. if v \<in> set (a # modified) then cp (vpmap v) else vpmap v)"
    using a by (intro ext) (auto simp add: project_vertex_def default_functor_def)
  finally show ?case .
qed

lemma loop_body_projecting_remesher:
  assumes "choose_parameter (do_project np) True"
    and "choose_parameter (projection_functor np) (default_functor index_query) =
           default_functor closest_point"
  shows "loop_body (projecting_remesher index_query modified) r t np vpmap =
           project_to_surface_impl (default_functor closest_point) modified vpmap"
  using assms by (simp add: loop_body_def projecting_remesher_def)

text \<open>
  C8. Let the projection functor in effect (the default one on the spatial index, or the
  one of the caller) answer closest-point queries against a reference surface within a
  tolerance, and let each modified vertex be listed once. Then a pass of the loop of
  \<^verbatim>\<open>isotropic_remeshing\<close> in which nothing but the projection (lines 255 and 256) changes the
  points replaces the point of every modified vertex by the answer of the query, which is
  within the tolerance of the surface; a second pass right after the first moves no vertex
  by more than twice the tolerance; and with the tolerance \<open>0\<close> the second pass changes
  nothing: the vertex points after two projections are those after one.
\<close>

theorem projecting_twice_is_projecting_once_within_tolerance:
  assumes "is_closest_point_query_within tolerance surface closest_point"
    and "distinct modified"
    and "choose_parameter (do_project np) True"
    and "choose_parameter (projection_functor np) (default_functor index_query) =
           default_functor closest_point"
  shows "loop_body (projecting_remesher index_query modified) r t np vpmap =
           (\<lambda>v. if v \<in> set modified then closest_point (vpmap v) else vpmap v) \<and>
         (\<forall>v\<in>set modified. \<exists>c\<in>surface.
            distance (loop_body (projecting_remesher index_query modified) r t np vpmap v) c
              \<le> tolerance) \<and>
         (\<forall>v. distance
                (loop_body (projecting_remesher index_query modified) r t np
                   (loop_body (projecting_remesher index_query modified) r t np vpmap) v)
                (loop_body (projecting_remesher index_query modified) r t np vpmap v)
              \<le> 2 * tolerance) \<and>
         (tolerance = 0 \<longrightarrow>
            loop_body (projecting_remesher index_query modified) r t np
              (loop_body (projecting_remesher index_query modified) r t np vpmap) =
            loop_body (projecting_remesher index_query modified) r t np vpmap)"
proof -
  let ?once = "\<lambda>vpmap v. if v \<in> set modified then closest_point (vpmap v) else vpmap v"
  have pass: "loop_body (projecting_remesher index_query modified) r t np m = ?once m" for m
    using loop_body_projecting_remesher [OF assms(3,4), of modified r t m]
      project_default_pointwise [OF assms(2), of closest_point m]
    by simp
  have on: "\<exists>c\<in>surface. distance (?once vpmap v) c \<le> tolerance" if "v \<in> set modified" for v
  proof -
    from assms(1) obtain c where "c \<in> surface"
      and "distance (closest_point (vpmap v)) c \<le> tolerance"
      unfolding is_closest_point_query_within_def by blast
    with that show ?thesis by auto
  qed
  have near: "distance (?once (?once vpmap) v) (?once vpmap v) \<le> 2 * tolerance" for v
    using closest_point_twice [OF assms(1), of "vpmap v"] tolerance_nonneg [OF assms(1)]
    by (simp add: distance_self)
  have same: "?once (?once vpmap) = ?once vpmap" if "tolerance = 0"
  proof (rule ext)
    fix v
    from near [of v] that have "distance (?once (?once vpmap) v) (?once vpmap v) \<le> 0"
      by simp
    then show "?once (?once vpmap) v = ?once vpmap v"
      by (rule distance_zero [symmetric])
  qed
  show ?thesis
    unfolding pass using on near same by blast
qed

lemma rough_drop_to_ground_query:
  "is_closest_point_query_within (1 / 1024) ground_plane rough_drop_to_ground"
proof -
  have "\<exists>c\<in>ground_plane. (\<forall>q\<in>ground_plane. distance p c \<le> distance p q) \<and>
          distance (rough_drop_to_ground p) c \<le> 1 / 1024" for p
  proof -
    obtain x y z where p: "p = (x, y, z)" by (cases p)
    let ?c = "(x, y, 0 :: real)"
    have on: "?c \<in> ground_plane" by (simp add: ground_plane_def)
    have least: "distance p ?c \<le> distance p q" if "q \<in> ground_plane" for q
    proof -
      obtain qx qy qz where q: "q = (qx, qy, qz)" by (cases q)
      from that have qz: "qz = 0" by (simp add: q ground_plane_def)
      have "sqrt (z\<^sup>2) \<le> sqrt ((x - qx)\<^sup>2 + (y - qy)\<^sup>2 + z\<^sup>2)"
        by (rule real_sqrt_le_mono) simp
      then show ?thesis
        by (simp add: p q qz distance_def squared_distance_def)
    qed
    have "distance (rough_drop_to_ground p) ?c = \<bar>min 1 \<bar>z\<bar> / 1024\<bar>"
      by (simp add: p rough_drop_to_ground_def distance_def squared_distance_def)
    also have "\<dots> \<le> 1 / 1024" by simp
    finally have "distance (rough_drop_to_ground p) ?c \<le> 1 / 1024" .
    with on least show ?thesis by blast
  qed
  then show ?thesis unfolding is_closest_point_query_within_def by blast
qed

theorem projecting_twice_is_projecting_once_within_tolerance_witness:
  "is_closest_point_query_within (1 / 1024) ground_plane rough_drop_to_ground \<and>
   distinct [0 :: nat, 1] \<and>
   choose_parameter (do_project (all_default ::
     (unit, unit, unit, (nat \<Rightarrow> point) \<Rightarrow> nat \<Rightarrow> point) named_parameters)) True \<and>
   choose_parameter (projection_functor (all_default ::
     (unit, unit, unit, (nat \<Rightarrow> point) \<Rightarrow> nat \<Rightarrow> point) named_parameters))
     (default_functor rough_drop_to_ground) = default_functor rough_drop_to_ground \<and>
   loop_body (projecting_remesher rough_drop_to_ground [0, 1])
     (remesher False (all_default ::
        (unit, unit, unit, (nat \<Rightarrow> point) \<Rightarrow> nat \<Rightarrow> point) named_parameters)) 0
     all_default points_above 1 = (1, 0, 1 / 1024) \<and>
   loop_body (projecting_remesher rough_drop_to_ground [0, 1])
     (remesher False (all_default ::
        (unit, unit, unit, (nat \<Rightarrow> point) \<Rightarrow> nat \<Rightarrow> point) named_parameters)) 0
     all_default
     (loop_body (projecting_remesher rough_drop_to_ground [0, 1])
        (remesher False (all_default ::
           (unit, unit, unit, (nat \<Rightarrow> point) \<Rightarrow> nat \<Rightarrow> point) named_parameters)) 0
        all_default points_above) 1 = (1, 0, 1 / 1048576) \<and>
   distance (1, 0, 1 / 1048576) (1, 0, 1 / 1024) \<le> 2 * (1 / 1024)"
proof -
  let ?np = "all_default :: (unit, unit, unit, (nat \<Rightarrow> point) \<Rightarrow> nat \<Rightarrow> point) named_parameters"
  have d: "distinct [0 :: nat, 1]" by simp
  have p: "choose_parameter (do_project ?np) True"
    by (simp add: all_default_def choose_parameter_def)
  have f: "choose_parameter (projection_functor ?np) (default_functor rough_drop_to_ground) =
             (default_functor rough_drop_to_ground :: (nat \<Rightarrow> point) \<Rightarrow> nat \<Rightarrow> point)"
    by (simp add: all_default_def choose_parameter_def)
  have once: "loop_body (projecting_remesher rough_drop_to_ground [0, 1])
      (remesher False ?np) 0 ?np points_above 1 = (1, 0, 1 / 1024)"
    by (simp add: loop_body_def projecting_remesher_def all_default_def choose_parameter_def
          project_to_surface_impl_def project_vertex_def default_functor_def
          rough_drop_to_ground_def points_above_def)
  have twice: "loop_body (projecting_remesher rough_drop_to_ground [0, 1])
      (remesher False ?np) 0 ?np
      (loop_body (projecting_remesher rough_drop_to_ground [0, 1])
         (remesher False ?np) 0 ?np points_above) 1 = (1, 0, 1 / 1048576)"
    by (simp add: loop_body_def projecting_remesher_def all_default_def choose_parameter_def
          project_to_surface_impl_def project_vertex_def default_functor_def
          rough_drop_to_ground_def points_above_def)
  from projecting_twice_is_projecting_once_within_tolerance
         [OF rough_drop_to_ground_query d p f, of "remesher False ?np" 0 points_above]
  have "distance
          (loop_body (projecting_remesher rough_drop_to_ground [0, 1]) (remesher False ?np) 0 ?np
             (loop_body (projecting_remesher rough_drop_to_ground [0, 1])
                (remesher False ?np) 0 ?np points_above) 1)
          (loop_body (projecting_remesher rough_drop_to_ground [0, 1]) (remesher False ?np) 0 ?np
             points_above 1)
        \<le> 2 * (1 / 1024)"
    by blast
  then have near: "distance (1, 0, 1 / 1048576) (1, 0, 1 / 1024) \<le> 2 * (1 / 1024)"
    unfolding once twice .
  show ?thesis
    by (intro conjI) (rule rough_drop_to_ground_query d p f once twice near)+
qed

section \<open>The editors keep the mesh a triangulated manifold\<close>

lemma edges_of_iff: "e \<in> edges_of F \<longleftrightarrow> card e = 2 \<and> (\<exists>f\<in>F. e \<subseteq> f)"
proof
  assume "e \<in> edges_of F"
  then obtain f x y where "f \<in> F" "x \<in> f" "y \<in> f" "y \<noteq> x" "e = {x, y}"
    by (auto simp add: edges_of_def)
  then show "card e = 2 \<and> (\<exists>f\<in>F. e \<subseteq> f)" by auto
next
  assume r: "card e = 2 \<and> (\<exists>f\<in>F. e \<subseteq> f)"
  then obtain x y where e: "e = {x, y}" "x \<noteq> y" by (auto simp add: card_2_iff)
  from r obtain f where "f \<in> F" "e \<subseteq> f" by blast
  with e show "e \<in> edges_of F"
    by (auto simp add: edges_of_def)
qed

lemma finite_faces_at: "finite F \<Longrightarrow> finite (faces_at F e)"
  by (simp add: faces_at_def)

lemma triangulated_manifold_iff:
  "triangulated_manifold F \<longleftrightarrow>
     finite F \<and> (\<forall>f\<in>F. card f = 3) \<and> (\<forall>e. card e = 2 \<longrightarrow> card (faces_at F e) \<le> 2)"
proof
  assume tm: "triangulated_manifold F"
  have "card (faces_at F e) \<le> 2" if "card e = 2" for e
  proof (cases "e \<in> edges_of F")
    case True
    with tm show ?thesis by (auto simp add: triangulated_manifold_def)
  next
    case False
    with that have "faces_at F e = {}"
      by (auto simp add: edges_of_iff faces_at_def)
    then show ?thesis by simp
  qed
  with tm show "finite F \<and> (\<forall>f\<in>F. card f = 3) \<and> (\<forall>e. card e = 2 \<longrightarrow> card (faces_at F e) \<le> 2)"
    by (simp add: triangulated_manifold_def)
next
  assume r: "finite F \<and> (\<forall>f\<in>F. card f = 3) \<and> (\<forall>e. card e = 2 \<longrightarrow> card (faces_at F e) \<le> 2)"
  have "card (faces_at F e) = 1 \<or> card (faces_at F e) = 2" if "e \<in> edges_of F" for e
  proof -
    from that have c: "card e = 2" and ne: "faces_at F e \<noteq> {}"
      by (auto simp add: edges_of_iff faces_at_def)
    from r c have "card (faces_at F e) \<le> 2" by blast
    moreover from ne r have "card (faces_at F e) \<noteq> 0"
      by (simp add: finite_faces_at)
    ultimately show ?thesis by linarith
  qed
  with r show "triangulated_manifold F"
    by (simp add: triangulated_manifold_def)
qed

lemma flip_preserves:
  assumes tm: "triangulated_manifold F"
    and two: "faces_at F {a, b} = {{a, b, c}, {a, b, d}}"
    and cd: "c \<noteq> d"
    and new: "faces_at F {c, d} = {}"
  shows "triangulated_manifold (flip_edge F a b c d)"
proof -
  let ?A = "{a, b, c}" and ?B = "{a, b, d}" and ?C = "{a, c, d}" and ?D = "{b, c, d}"
  from tm have fin: "finite F" and tri: "\<forall>f\<in>F. card f = 3"
    and man: "\<And>e. card e = 2 \<Longrightarrow> card (faces_at F e) \<le> 2"
    by (simp_all add: triangulated_manifold_iff)
  from two have AF: "?A \<in> F" and BF: "?B \<in> F" by (auto simp add: faces_at_def)
  with tri have cA: "card ?A = 3" and cB: "card ?B = 3" by blast+
  from cA have ab: "a \<noteq> b" and ac: "a \<noteq> c" and bc: "b \<noteq> c"
    by (auto simp add: card_insert_if split: if_splits)
  from cB have ad: "a \<noteq> d" and bd: "b \<noteq> d"
    by (auto simp add: card_insert_if split: if_splits)
  have cC: "card ?C = 3" and cD: "card ?D = 3"
    using ac ad cd bc bd by simp_all
  have fin': "finite (flip_edge F a b c d)"
    using fin by (simp add: flip_edge_def)
  have tri': "\<forall>f\<in>flip_edge F a b c d. card f = 3"
    using tri cC cD by (auto simp add: flip_edge_def)
  have man': "card (faces_at (flip_edge F a b c d) e) \<le> 2" if e: "card e = 2" for e
  proof -
    have decomp: "faces_at (flip_edge F a b c d) e =
                   (faces_at F e - {?A, ?B}) \<union> faces_at {?C, ?D} e"
      by (auto simp add: faces_at_def flip_edge_def)
    have finE: "finite (faces_at F e)" using fin by (rule finite_faces_at)
    consider (both) "e \<subseteq> ?C" "e \<subseteq> ?D" | (onlyC) "e \<subseteq> ?C" "\<not> e \<subseteq> ?D"
      | (onlyD) "\<not> e \<subseteq> ?C" "e \<subseteq> ?D" | (none) "\<not> e \<subseteq> ?C" "\<not> e \<subseteq> ?D"
      by blast
    then show ?thesis
    proof cases
      case both
      then have "e \<subseteq> {c, d}" using ac ad bc bd ab by auto
      with e have "e = {c, d}"
        by (metis card_2_iff card_seteq finite.emptyI finite.insertI order_refl cd)
      then have "faces_at F e = {}" using new by simp
      then have "faces_at (flip_edge F a b c d) e \<subseteq> {?C, ?D}"
        unfolding decomp by (auto simp add: faces_at_def)
      then have "card (faces_at (flip_edge F a b c d) e) \<le> card {?C, ?D}"
        by (intro card_mono) auto
      also have "\<dots> \<le> 2" by (simp add: card_insert_if)
      finally show ?thesis .
    next
      case onlyC
      from e obtain x y where xy: "e = {x, y}" "x \<noteq> y" by (auto simp add: card_2_iff)
      with onlyC have "e \<subseteq> ?A \<or> e \<subseteq> ?B" by auto
      then have "?A \<in> faces_at F e \<or> ?B \<in> faces_at F e"
        using AF BF by (auto simp add: faces_at_def)
      then have "card (faces_at F e - {?A, ?B}) < card (faces_at F e)"
        using finE by (intro psubset_card_mono) auto
      with man [OF e] have one: "card (faces_at F e - {?A, ?B}) \<le> 1" by simp
      from onlyC have "faces_at {?C, ?D} e = {?C}" by (auto simp add: faces_at_def)
      then have "card (faces_at (flip_edge F a b c d) e) \<le> card (faces_at F e - {?A, ?B}) + 1"
        using card_Un_le [of "faces_at F e - {?A, ?B}" "{?C}"] by (simp add: decomp)
      with one show ?thesis by simp
    next
      case onlyD
      from e obtain x y where xy: "e = {x, y}" "x \<noteq> y" by (auto simp add: card_2_iff)
      with onlyD have "e \<subseteq> ?A \<or> e \<subseteq> ?B" by auto
      then have "?A \<in> faces_at F e \<or> ?B \<in> faces_at F e"
        using AF BF by (auto simp add: faces_at_def)
      then have "card (faces_at F e - {?A, ?B}) < card (faces_at F e)"
        using finE by (intro psubset_card_mono) auto
      with man [OF e] have one: "card (faces_at F e - {?A, ?B}) \<le> 1" by simp
      from onlyD have "faces_at {?C, ?D} e = {?D}" by (auto simp add: faces_at_def)
      then have "card (faces_at (flip_edge F a b c d) e) \<le> card (faces_at F e - {?A, ?B}) + 1"
        using card_Un_le [of "faces_at F e - {?A, ?B}" "{?D}"] by (simp add: decomp)
      with one show ?thesis by simp
    next
      case none
      then have "faces_at (flip_edge F a b c d) e \<subseteq> faces_at F e"
        unfolding decomp by (auto simp add: faces_at_def)
      then have "card (faces_at (flip_edge F a b c d) e) \<le> card (faces_at F e)"
        using finE by (rule card_mono [rotated])
      with man [OF e] show ?thesis by simp
    qed
  qed
  from fin' tri' man' show ?thesis
    by (simp add: triangulated_manifold_iff)
qed

lemma card_Diff_Int_sum:
  assumes "finite A"
  shows "card (A - S) + card (A \<inter> S) = card A"
proof -
  have "card ((A - S) \<union> (A \<inter> S)) = card (A - S) + card (A \<inter> S)"
    using assms by (intro card_Un_disjoint) auto
  then show ?thesis by (simp add: Un_Diff_Int)
qed

lemma split_preserves:
  assumes tm: "triangulated_manifold F"
    and ab: "a \<noteq> b"
    and fresh: "m \<notin> \<Union>F"
  shows "triangulated_manifold (split_edge F a b m)"
proof -
  let ?S = "faces_at F {a, b}"
  let ?ha = "\<lambda>f. insert m (f - {b})" and ?hb = "\<lambda>f. insert m (f - {a})"
  let ?F' = "split_edge F a b m"
  from tm have fin: "finite F" and tri: "\<And>f. f \<in> F \<Longrightarrow> card f = 3"
    and man: "\<And>e. card e = 2 \<Longrightarrow> card (faces_at F e) \<le> 2"
    by (simp_all add: triangulated_manifold_iff)
  have finS: "finite ?S" using fin by (rule finite_faces_at)
  have cardS: "card ?S \<le> 2" using man [of "{a, b}"] ab by simp
  have S: "f \<in> F \<and> a \<in> f \<and> b \<in> f \<and> m \<notin> f" if "f \<in> ?S" for f
    using that fresh by (auto simp add: faces_at_def)
  have finf: "finite f" if "f \<in> F" for f
    using tri [OF that] by (metis card.infinite zero_neq_numeral)
  have F': "?F' = (F - ?S) \<union> ?ha ` ?S \<union> ?hb ` ?S"
    by (simp add: split_edge_def)
  have fin': "finite ?F'"
    using fin finS by (simp add: F')
  have tri': "\<forall>f\<in>?F'. card f = 3"
  proof
    fix g assume "g \<in> ?F'"
    then consider "g \<in> F" | f where "f \<in> ?S" "g = ?ha f" | f where "f \<in> ?S" "g = ?hb f"
      unfolding F' by blast
    then show "card g = 3"
    proof cases
      case 1 then show ?thesis by (rule tri)
    next
      case 2
      with S [of f] tri [of f] finf [of f] show ?thesis by (simp add: card_Diff_singleton)
    next
      case 3
      with S [of f] tri [of f] finf [of f] show ?thesis by (simp add: card_Diff_singleton)
    qed
  qed
  have third: "f = {a, b, y}" if "f \<in> ?S" "y \<in> f" "y \<noteq> a" "y \<noteq> b" for f y
  proof -
    from that S [of f] have sub: "{a, b, y} \<subseteq> f" by simp
    have "card {a, b, y} = 3" using ab that by simp
    with sub tri [of f] S [of f] that(1) finf [of f] show ?thesis
      by (metis card_subset_eq)
  qed
  have man': "card (faces_at ?F' e) \<le> 2" if e: "card e = 2" for e
  proof (cases "m \<in> e")
    case True
    from e True obtain y where ey: "e = {m, y}" "y \<noteq> m"
      by (auto simp add: card_2_iff doubleton_eq_iff)
    have new: "faces_at ?F' e \<subseteq> {g \<in> ?ha ` ?S. y \<in> g} \<union> {g \<in> ?hb ` ?S. y \<in> g}"
      using fresh unfolding F' by (auto simp add: faces_at_def ey)
    show ?thesis
    proof (cases "y = a \<or> y = b")
      case True
      then have "{g \<in> ?ha ` ?S. y \<in> g} \<union> {g \<in> ?hb ` ?S. y \<in> g} \<subseteq>
                   (if y = a then ?ha ` ?S else ?hb ` ?S)"
        using ab ey by auto
      with new have "faces_at ?F' e \<subseteq> (if y = a then ?ha ` ?S else ?hb ` ?S)"
        by (rule subset_trans)
      then have "card (faces_at ?F' e) \<le> card (if y = a then ?ha ` ?S else ?hb ` ?S)"
        using finS by (intro card_mono) auto
      also have "\<dots> \<le> card ?S"
        using finS by (simp add: card_image_le)
      finally show ?thesis using cardS by simp
    next
      case False
      then have "{g \<in> ?ha ` ?S. y \<in> g} \<union> {g \<in> ?hb ` ?S. y \<in> g} \<subseteq>
                   {?ha {a, b, y}, ?hb {a, b, y}}"
        using third ey by auto
      with new have "faces_at ?F' e \<subseteq> {?ha {a, b, y}, ?hb {a, b, y}}"
        by (rule subset_trans)
      then have "card (faces_at ?F' e) \<le> card {?ha {a, b, y}, ?hb {a, b, y}}"
        by (intro card_mono) auto
      also have "\<dots> \<le> 2" by (simp add: card_insert_if)
      finally show ?thesis .
    qed
  next
    case False
    have finE: "finite (faces_at F e)" using fin by (rule finite_faces_at)
    consider (both) "a \<in> e" "b \<in> e" | (a) "a \<in> e" "b \<notin> e" | (b) "a \<notin> e" "b \<in> e"
      | (none) "a \<notin> e" "b \<notin> e"
      by blast
    then show ?thesis
    proof cases
      case both
      have "faces_at ?F' e = {}"
        using both False unfolding F' by (auto simp add: faces_at_def)
      then show ?thesis by simp
    next
      case a
      have "faces_at ?F' e \<subseteq> (faces_at F e - ?S) \<union> ?ha ` (faces_at F e \<inter> ?S)"
        using a False unfolding F' by (auto simp add: faces_at_def)
      then have "card (faces_at ?F' e) \<le> card ((faces_at F e - ?S) \<union> ?ha ` (faces_at F e \<inter> ?S))"
        using finE by (intro card_mono) auto
      also have "\<dots> \<le> card (faces_at F e - ?S) + card (?ha ` (faces_at F e \<inter> ?S))"
        by (rule card_Un_le)
      also have "\<dots> \<le> card (faces_at F e - ?S) + card (faces_at F e \<inter> ?S)"
        using finE by (simp add: card_image_le)
      also have "\<dots> = card (faces_at F e)"
        using finE by (rule card_Diff_Int_sum)
      finally show ?thesis using man [OF e] by simp
    next
      case b
      have "faces_at ?F' e \<subseteq> (faces_at F e - ?S) \<union> ?hb ` (faces_at F e \<inter> ?S)"
        using b False unfolding F' by (auto simp add: faces_at_def)
      then have "card (faces_at ?F' e) \<le> card ((faces_at F e - ?S) \<union> ?hb ` (faces_at F e \<inter> ?S))"
        using finE by (intro card_mono) auto
      also have "\<dots> \<le> card (faces_at F e - ?S) + card (?hb ` (faces_at F e \<inter> ?S))"
        by (rule card_Un_le)
      also have "\<dots> \<le> card (faces_at F e - ?S) + card (faces_at F e \<inter> ?S)"
        using finE by (simp add: card_image_le)
      also have "\<dots> = card (faces_at F e)"
        using finE by (rule card_Diff_Int_sum)
      finally show ?thesis using man [OF e] by simp
    next
      case none
      have no: "\<not> e \<subseteq> f" if "f \<in> ?S" for f
      proof
        assume sub: "e \<subseteq> f"
        from e obtain x y where xy: "e = {x, y}" "x \<noteq> y" by (auto simp add: card_2_iff)
        with sub none have "f = {a, b, x}" and "f = {a, b, y}"
          using third [OF that, of x] third [OF that, of y] by auto
        with xy none show False by (auto simp add: doubleton_eq_iff insert_eq_iff)
      qed
      have "faces_at ?F' e \<subseteq> faces_at F e"
        using none False no unfolding F' by (auto simp add: faces_at_def)
      then have "card (faces_at ?F' e) \<le> card (faces_at F e)"
        using finE by (rule card_mono [rotated])
      with man [OF e] show ?thesis by simp
    qed
  qed
  from fin' tri' man' show ?thesis
    by (simp add: triangulated_manifold_iff)
qed

lemma collapse_preserves:
  assumes tm: "triangulated_manifold F"
    and ab: "a \<noteq> b"
    and link: "link_condition F a b"
  shows "triangulated_manifold (collapse_edge F a b)"
proof -
  from tm have fin: "finite F" and tri: "\<And>f. f \<in> F \<Longrightarrow> card f = 3"
    by (simp_all add: triangulated_manifold_iff)
  have "finite (collapse_edge F a b)"
    using fin by (simp add: collapse_edge_def)
  moreover have "card g = 3" if "g \<in> collapse_edge F a b" for g
  proof -
    from that obtain f where f: "f \<in> F" "\<not> {a, b} \<subseteq> f" "g = merge_vertex a b f"
      by (auto simp add: collapse_edge_def faces_at_def)
    have finf: "finite f" using tri [OF f(1)] by (metis card.infinite zero_neq_numeral)
    show ?thesis
    proof (cases "b \<in> f")
      case True
      with f(2) have "a \<notin> f" by simp
      with True finf tri [OF f(1)] show ?thesis
        by (simp add: f(3) merge_vertex_def card_Diff_singleton)
    next
      case False
      with tri [OF f(1)] show ?thesis by (simp add: f(3) merge_vertex_def)
    qed
  qed
  moreover have "card (faces_at (collapse_edge F a b) e) \<le> 2" if "card e = 2" for e
  proof (cases "e \<in> edges_of (collapse_edge F a b)")
    case True
    with link show ?thesis by (simp add: link_condition_def)
  next
    case False
    with that have "faces_at (collapse_edge F a b) e = {}"
      by (auto simp add: edges_of_iff faces_at_def)
    then show ?thesis by simp
  qed
  ultimately show ?thesis
    by (simp add: triangulated_manifold_iff)
qed

lemma split_step_preserves:
  "split_step F F' \<Longrightarrow> triangulated_manifold F \<Longrightarrow> triangulated_manifold F'"
  by (induction rule: split_step.induct) (rule split_preserves)

lemma collapse_step_preserves:
  "collapse_step F F' \<Longrightarrow> triangulated_manifold F \<Longrightarrow> triangulated_manifold F'"
  by (induction rule: collapse_step.induct) (rule collapse_preserves)

lemma flip_step_preserves:
  "flip_step F F' \<Longrightarrow> triangulated_manifold F \<Longrightarrow> triangulated_manifold F'"
  by (induction rule: flip_step.induct) (rule flip_preserves)

lemma steps_preserve:
  assumes "step\<^sup>*\<^sup>* F F'" and "triangulated_manifold F"
    and "\<And>G G'. step G G' \<Longrightarrow> triangulated_manifold G \<Longrightarrow> triangulated_manifold G'"
  shows "triangulated_manifold F'"
  using assms(1,2)
proof (induction rule: rtranclp_induct)
  case base
  then show ?case .
next
  case (step G G')
  then show ?case using assms(3) by blast
qed

text \<open>
  C4. If the mesh is a triangulated manifold with boundary (every face is a triangle and
  every edge borders one or two triangles) before an iteration, then it is one after every
  stage of the iteration: after the splits, after the collapses, after the flips, after the
  relaxation and after the projection. For the split and the flip this is proved from what
  the editors do; a collapse is only made when the link condition holds, which the spec
  states as the condition that no duplicate face and no non-manifold edge arises.
\<close>

theorem stages_preserve_triangulated_manifold:
  assumes "triangulated_manifold F"
    and "split_long_edges_stage F F1"
    and "collapse_short_edges_stage F1 F2"
    and "equalize_valences_stage F2 F3"
    and "tangential_relaxation_stage F3 F4"
    and "project_to_surface_stage F4 F5"
  shows "triangulated_manifold F1 \<and> triangulated_manifold F2 \<and> triangulated_manifold F3 \<and>
         triangulated_manifold F4 \<and> triangulated_manifold F5"
proof -
  have 1: "triangulated_manifold F1"
    using assms(2,1) unfolding split_long_edges_stage_def
    by (rule steps_preserve) (rule split_step_preserves)
  have 2: "triangulated_manifold F2"
    using assms(3) 1 unfolding collapse_short_edges_stage_def
    by (rule steps_preserve) (rule collapse_step_preserves)
  have 3: "triangulated_manifold F3"
    using assms(4) 2 unfolding equalize_valences_stage_def
    by (rule steps_preserve) (rule flip_step_preserves)
  have 4: "triangulated_manifold F4"
    using assms(5) 3 by (simp add: tangential_relaxation_stage_def)
  have 5: "triangulated_manifold F5"
    using assms(6) 4 by (simp add: project_to_surface_stage_def)
  from 1 2 3 4 5 show ?thesis by simp
qed

lemma two_triangles_manifold: "triangulated_manifold two_triangles"
proof -
  have "card (faces_at two_triangles e) \<le> 2" for e
  proof -
    have "card (faces_at two_triangles e) \<le> card two_triangles"
      by (rule card_mono) (auto simp add: faces_at_def two_triangles_def)
    also have "\<dots> \<le> 2" by (simp add: two_triangles_def card_insert_if)
    finally show ?thesis .
  qed
  then show ?thesis
    by (simp add: triangulated_manifold_iff) (simp add: two_triangles_def)
qed

lemma split_two_triangles:
  "split_edge two_triangles 1 2 5 = {{1, 3, 5}, {1, 4, 5}, {2, 3, 5}, {2, 4, 5}}"
  by code_simp

lemma split_stage_two_triangles:
  "split_long_edges_stage two_triangles {{1, 3, 5}, {1, 4, 5}, {2, 3, 5}, {2, 4, 5}}"
proof -
  have e: "faces_at two_triangles {1, 2} \<noteq> {}"
    by code_simp
  have m: "5 \<notin> \<Union>two_triangles"
    by (simp add: two_triangles_def)
  have d: "(1::nat) \<noteq> 2" by simp
  have "split_step two_triangles (split_edge two_triangles 1 2 5)"
    using d e m by (rule split_step.split)
  then have "split_step two_triangles {{1, 3, 5}, {1, 4, 5}, {2, 3, 5}, {2, 4, 5}}"
    by (simp only: split_two_triangles)
  then show ?thesis
    unfolding split_long_edges_stage_def by (rule r_into_rtranclp)
qed

lemma flip_after_split:
  "equalize_valences_stage {{1, 3, 5}, {1, 4, 5}, {2, 3, 5}, {2, 4, 5::nat}}
     {{2, 3, 5}, {2, 4, 5}, {1, 3, 4}, {5, 3, 4}}"
proof -
  let ?F = "{{1, 3, 5}, {1, 4, 5}, {2, 3, 5}, {2, 4, 5::nat}}"
  have a: "faces_at ?F {1, 5} = {{1, 5, 3}, {1, 5, 4}}"
    by code_simp
  have b: "faces_at ?F {3, 4} = {}"
    by code_simp
  have c: "(3::nat) \<noteq> 4" by simp
  have "flip_step ?F (flip_edge ?F 1 5 3 4)"
    using a c b by (rule flip_step.flip)
  moreover have "flip_edge ?F 1 5 3 4 = {{2, 3, 5}, {2, 4, 5}, {1, 3, 4}, {5, 3, 4}}"
    by code_simp
  ultimately have "flip_step ?F {{2, 3, 5}, {2, 4, 5}, {1, 3, 4}, {5, 3, 4}}"
    by (simp only:)
  then show ?thesis
    unfolding equalize_valences_stage_def by (rule r_into_rtranclp)
qed

theorem stages_preserve_triangulated_manifold_witness:
  "triangulated_manifold two_triangles \<and>
   split_long_edges_stage two_triangles {{1, 3, 5}, {1, 4, 5}, {2, 3, 5}, {2, 4, 5}} \<and>
   collapse_short_edges_stage {{1, 3, 5}, {1, 4, 5}, {2, 3, 5}, {2, 4, 5::nat}}
     {{1, 3, 5}, {1, 4, 5}, {2, 3, 5}, {2, 4, 5}} \<and>
   equalize_valences_stage {{1, 3, 5}, {1, 4, 5}, {2, 3, 5}, {2, 4, 5::nat}}
     {{2, 3, 5}, {2, 4, 5}, {1, 3, 4}, {5, 3, 4}} \<and>
   tangential_relaxation_stage {{2, 3, 5}, {2, 4, 5}, {1, 3, 4}, {5, 3, 4::nat}}
     {{2, 3, 5}, {2, 4, 5}, {1, 3, 4}, {5, 3, 4}} \<and>
   project_to_surface_stage {{2, 3, 5}, {2, 4, 5}, {1, 3, 4}, {5, 3, 4::nat}}
     {{2, 3, 5}, {2, 4, 5}, {1, 3, 4}, {5, 3, 4}} \<and>
   triangulated_manifold {{1, 3, 5}, {1, 4, 5}, {2, 3, 5}, {2, 4, 5::nat}} \<and>
   triangulated_manifold {{2, 3, 5}, {2, 4, 5}, {1, 3, 4}, {5, 3, 4::nat}}"
proof -
  let ?F1 = "{{1, 3, 5}, {1, 4, 5}, {2, 3, 5}, {2, 4, 5::nat}}"
  let ?F3 = "{{2, 3, 5}, {2, 4, 5}, {1, 3, 4}, {5, 3, 4::nat}}"
  note s = split_stage_two_triangles
  have c: "collapse_short_edges_stage ?F1 ?F1"
    by (simp add: collapse_short_edges_stage_def)
  note f = flip_after_split
  have r: "tangential_relaxation_stage ?F3 ?F3"
    by (simp add: tangential_relaxation_stage_def)
  have p: "project_to_surface_stage ?F3 ?F3"
    by (simp add: project_to_surface_stage_def)
  from stages_preserve_triangulated_manifold [OF two_triangles_manifold s c f r p]
  have "triangulated_manifold ?F1 \<and> triangulated_manifold ?F3" by blast
  with two_triangles_manifold s c f r p show ?thesis by blast
qed

end
